theory Spec2Isabelle
  imports Complex_Main "HOL-Library.Log_Nat"
begin

text \<open>
  A shallow embedding of the expense tracker: the data model of \<open>types.ts\<close>, the
  colour table of \<open>constants.ts\<close>, the aggregation, the session state and the
  handlers of \<open>App.tsx\<close>, and \<open>analyzeStatement\<close> of
  \<open>services/geminiService.ts\<close>.

  Conventions. A \<open>number\<close> that holds an amount is an IEEE 754 double, with the
  rounding of every addition and with the infinities and \<open>NaN\<close> (section
  Numbers). A \<open>number\<close> that counts is a \<open>nat\<close>. A string is a list of 8-bit
  characters, read as code units below 256. The string enum \<open>Category\<close> is a
  datatype; \<open>Category_value\<close> gives the string of each member. React state is a
  record that each handler takes and returns; an asynchronous handler returns the
  state after its promise has settled.
\<close>

section \<open>Numbers\<close>

text \<open>
  A JavaScript \<open>number\<close> is a binary64 value: a finite value, \<open>Infinity\<close>,
  \<open>-Infinity\<close> or \<open>NaN\<close>. A finite value is given by the rational it denotes. The
  two zeros are one value here: the code adds, subtracts and compares numbers, and
  none of these tells \<open>+0\<close> from \<open>-0\<close> in the other operand or in the outcome of
  a comparison.
\<close>

datatype number = Fin rat | PosInf | NegInf | NaN

text \<open>\<open>ilog2 q\<close> is the binary exponent of a positive rational: \<open>2 ^ e \<le> q < 2 ^ (e + 1)\<close>.\<close>

definition ilog2 :: "rat \<Rightarrow> int" where
  "ilog2 q =
     (let (a, b) = quotient_of q;
          d = bitlen a - bitlen b
      in if 2 powi d \<le> q then d else d - 1)"

definition round_half_even :: "rat \<Rightarrow> int" where
  "round_half_even x =
     (let f = \<lfloor>x\<rfloor>;
          d = x - of_int f
      in if d < 1 / 2 then f
         else if 1 / 2 < d then f + 1
         else if even f then f else f + 1)"

text \<open>
  Rounding of an exact result to binary64, to nearest with ties to even: 53
  significant bits, the exponent not below \<open>-1022\<close> (below it the values are
  subnormal, spaced \<open>2 ^ -1074\<close> apart), and overflow to an infinity when the rounded
  magnitude reaches \<open>2 ^ 1024\<close>.
\<close>

definition round_double :: "rat \<Rightarrow> number" where
  "round_double q =
     (if q = 0 then Fin 0
      else
        (let e = max (ilog2 \<bar>q\<bar>) (- 1022);
             ulp = 2 powi (e - 52);
             r = of_int (round_half_even (\<bar>q\<bar> / ulp)) * ulp
         in if 2 ^ 1024 \<le> r then (if 0 < q then PosInf else NegInf)
            else Fin (sgn q * r)))"

text \<open>The operators \<open>+\<close>, unary \<open>-\<close> and binary \<open>-\<close>.\<close>

fun fadd :: "number \<Rightarrow> number \<Rightarrow> number" where
  "fadd (Fin a) (Fin b) = round_double (a + b)"
| "fadd NaN y = NaN"
| "fadd x NaN = NaN"
| "fadd PosInf NegInf = NaN"
| "fadd NegInf PosInf = NaN"
| "fadd PosInf y = PosInf"
| "fadd x PosInf = PosInf"
| "fadd NegInf y = NegInf"
| "fadd x NegInf = NegInf"

fun fneg :: "number \<Rightarrow> number" where
  "fneg (Fin a) = Fin (- a)"
| "fneg PosInf = NegInf"
| "fneg NegInf = PosInf"
| "fneg NaN = NaN"

definition fsub :: "number \<Rightarrow> number \<Rightarrow> number" where
  "fsub x y = fadd x (fneg y)"

text \<open>\<open>x > 0\<close> and \<open>x >= y\<close>; every comparison with \<open>NaN\<close> is false.\<close>

fun positive :: "number \<Rightarrow> bool" where
  "positive (Fin q) = (0 < q)"
| "positive PosInf = True"
| "positive NegInf = False"
| "positive NaN = False"

fun fge :: "number \<Rightarrow> number \<Rightarrow> bool" where
  "fge NaN y = False"
| "fge x NaN = False"
| "fge (Fin a) (Fin b) = (b \<le> a)"
| "fge PosInf y = True"
| "fge x NegInf = True"
| "fge x y = False"

text \<open>
  The number that \<open>JSON.parse\<close> builds from a decimal literal is the double nearest
  to it; a literal such as \<open>1e999\<close> gives \<open>Infinity\<close>.
\<close>

definition JSON_number :: "rat \<Rightarrow> number" where
  "JSON_number q = round_double q"

text \<open>
  For statements about exact sums: the rational that a finite number denotes, and
  the numbers that are whole.
\<close>

fun finite_value :: "number \<Rightarrow> rat" where
  "finite_value (Fin q) = q"
| "finite_value x = 0"

fun is_whole :: "number \<Rightarrow> bool" where
  "is_whole (Fin q) = (q \<in> \<int>)"
| "is_whole x = False"

fun is_finite :: "number \<Rightarrow> bool" where
  "is_finite (Fin q) = True"
| "is_finite x = False"

text \<open>
  The smallest positive double. Every finite double is a whole multiple of it.
\<close>

definition tiny :: rat where
  "tiny = 2 powi (- 1074)"

definition on_grid :: "rat \<Rightarrow> bool" where
  "on_grid r = (r / tiny \<in> \<int>)"

fun representable :: "number \<Rightarrow> bool" where
  "representable (Fin q) = on_grid q"
| "representable x = True"

section \<open>Data model (types.ts)\<close>

datatype Category =
  FOOD | SHOPPING | HEALTH | TRANSPORT | UTILITIES | ENTERTAINMENT | HOUSING | MISC

fun Category_value :: "Category \<Rightarrow> string" where
  "Category_value FOOD = ''Food & Dining''"
| "Category_value SHOPPING = ''Clothing & Shopping''"
| "Category_value HEALTH = ''Health & Wellness''"
| "Category_value TRANSPORT = ''Travel & Transport''"
| "Category_value UTILITIES = ''Utilities & Bills''"
| "Category_value ENTERTAINMENT = ''Entertainment''"
| "Category_value HOUSING = ''Housing & Rent''"
| "Category_value MISC = ''Miscellaneous''"

definition Category_values :: "string list" where
  "Category_values =
     map Category_value
       [FOOD, SHOPPING, HEALTH, TRANSPORT, UTILITIES, ENTERTAINMENT, HOUSING, MISC]"

record Transaction =
  id' :: string
  date :: string
  merchant :: string
  amount :: number
  category :: Category
  originalDescription :: string

record ExpenseSummary =
  category :: Category
  total' :: number
  count :: nat
  color :: string

record AnalysisResult =
  transactions :: "Transaction list"
  totalAmount :: number
  currency :: string

section \<open>Constants (constants.ts)\<close>

fun CATEGORY_COLORS :: "Category \<Rightarrow> string" where
  "CATEGORY_COLORS FOOD = ''#F87171''"
| "CATEGORY_COLORS SHOPPING = ''#60A5FA''"
| "CATEGORY_COLORS HEALTH = ''#34D399''"
| "CATEGORY_COLORS TRANSPORT = ''#FBBF24''"
| "CATEGORY_COLORS UTILITIES = ''#A78BFA''"
| "CATEGORY_COLORS ENTERTAINMENT = ''#F472B6''"
| "CATEGORY_COLORS HOUSING = ''#FB923C''"
| "CATEGORY_COLORS MISC = ''#94A3B8''"

section \<open>Aggregator (App.tsx: categorySummary, totalSpent)\<close>

text \<open>
  The object \<open>summary\<close> of \<open>categorySummary\<close>, as an association list in insertion
  order. The body of the \<open>forEach\<close> stores a fresh entry when the category has none,
  then adds to the entry's \<open>total\<close> and \<open>count\<close>.
\<close>

type_synonym summary_object = "(Category \<times> ExpenseSummary) list"

text \<open>\<open>a || b\<close> on strings: the empty string is falsy.\<close>

definition or_else :: "string \<Rightarrow> string \<Rightarrow> string" where
  "or_else a b = (if a = [] then b else a)"

fun update_entry ::
  "Category \<Rightarrow> (ExpenseSummary \<Rightarrow> ExpenseSummary) \<Rightarrow> summary_object \<Rightarrow> summary_object" where
  "update_entry k f [] = []"
| "update_entry k f ((k', v) # rest) =
     (if k' = k then (k', f v) # rest else (k', v) # update_entry k f rest)"

definition ensure_entry :: "summary_object \<Rightarrow> Category \<Rightarrow> summary_object" where
  "ensure_entry summary k =
     (if map_of summary k = None
      then summary @
             [(k, \<lparr>category = k, total' = Fin 0, count = 0,
                   color = or_else (CATEGORY_COLORS k) ''#94A3B8''\<rparr>)]
      else summary)"

definition forEach_body :: "summary_object \<Rightarrow> Transaction \<Rightarrow> summary_object" where
  "forEach_body summary t =
     (let summary1 = ensure_entry summary (Transaction.category t);
          summary2 = update_entry (Transaction.category t)
                       (\<lambda>s. s\<lparr>total' := fadd (total' s) (amount t)\<rparr>) summary1;
          summary3 = update_entry (Transaction.category t)
                       (\<lambda>s. s\<lparr>count := count s + 1\<rparr>) summary2
      in summary3)"

text \<open>
  \<open>Array.prototype.sort\<close> with a comparator is stable. It reads the comparator's
  result \<open>v\<close> on \<open>(a, b)\<close> with \<open>NaN\<close> taken as \<open>+0\<close>, and puts \<open>a\<close> after \<open>b\<close> only
  when \<open>v > 0\<close>. For a comparator that is a consistent ordering this fixes the
  result, which the stable insertion sort below computes. \<open>Object.values\<close> lists
  the entries in the order in which their keys were first stored (no category
  string is an array index).
\<close>

fun insert_sorted :: "('a \<Rightarrow> 'a \<Rightarrow> number) \<Rightarrow> 'a \<Rightarrow> 'a list \<Rightarrow> 'a list" where
  "insert_sorted cmp x [] = [x]"
| "insert_sorted cmp x (y # ys) =
     (if positive (cmp x y) then y # insert_sorted cmp x ys else x # y # ys)"

definition Array_sort :: "('a \<Rightarrow> 'a \<Rightarrow> number) \<Rightarrow> 'a list \<Rightarrow> 'a list" where
  "Array_sort cmp xs = foldr (insert_sorted cmp) xs []"

definition Object_values :: "summary_object \<Rightarrow> ExpenseSummary list" where
  "Object_values summary = map snd summary"

definition categorySummary :: "Transaction list \<Rightarrow> ExpenseSummary list" where
  "categorySummary ts =
     Array_sort (\<lambda>a b. fsub (total' b) (total' a)) (Object_values (foldl forEach_body [] ts))"

definition totalSpent :: "Transaction list \<Rightarrow> number" where
  "totalSpent ts = foldl (\<lambda>sum t. fadd sum (amount t)) (Fin 0) ts"


text \<open>Every entry of the summary object is stored under its own category.\<close>

definition keyed :: "summary_object \<Rightarrow> bool" where
  "keyed summary = (\<forall>(k, v) \<in> set summary. ExpenseSummary.category v = k)"

section \<open>Statement Analyzer (services/geminiService.ts: analyzeStatement)\<close>

text \<open>
  The argument of \<open>analyzeStatement\<close> is either the pasted text or an inline image
  (\<open>{ data, mimeType }\<close>). The \<open>data\<close> of an image is the second piece of the file
  reader's data URL, which is \<open>undefined\<close> when the URL has no comma.
\<close>

datatype analyze_input =
  Text string
| InlineData (data: "string option") (mimeType: string)

text \<open>A thrown \<open>Error\<close> object; its \<open>message\<close> may be \<open>undefined\<close>.\<close>

datatype thrown = Error (message: "string option")

text \<open>
  The value that \<open>JSON.parse\<close> builds. An object keeps its members in order, keyed by
  name.
\<close>

datatype json =
  JNull
| JBool bool
| JNumber number
| JString string
| JArray "json list"
| JObject "(string \<times> json) list"

text \<open>
  The \<open>contents\<close> sent to the service: the prompt string for pasted text, or one part
  list (instruction text and inline data) for an image.
\<close>

datatype contents =
  PromptText string
| PromptParts string "string option" string

definition prompt :: "analyze_input \<Rightarrow> contents" where
  "prompt input =
     (case input of
        Text s \<Rightarrow>
          PromptText (''Analyze this Indian bank statement text: '' @ [CHR 0x0A, CHR 0x0A] @ s)
      | InlineData d m \<Rightarrow>
          PromptParts
            ''Extract transactions from this Indian bank statement image and categorize them into INR values.''
            d m)"

text \<open>
  The settled promise of \<open>ai.models.generateContent\<close>: it rejects with some error, or
  resolves to a response whose \<open>text\<close> may be \<open>undefined\<close>.
\<close>

datatype api_response =
  Rejected thrown
| Response (response_text: "string option")

text \<open>\<open>JSON.parse\<close> applies \<open>ToString\<close> to its argument first.\<close>

definition ToString :: "string option \<Rightarrow> string" where
  "ToString t = (case t of None \<Rightarrow> ''undefined'' | Some s \<Rightarrow> s)"

text \<open>
  \<open>analyzeStatement\<close>, with the two library calls it makes as parameters:
  \<open>generateContent\<close> (the external service, called once with the fixed model,
  instruction, schema and temperature, so only \<open>contents\<close> varies) and \<open>JSON_parse\<close>
  (\<open>None\<close> where \<open>JSON.parse\<close> throws a \<open>SyntaxError\<close>). Whatever is thrown inside
  the \<open>try\<close> block is replaced by one new \<open>Error\<close>; the parsed value is returned
  as it is (\<open>result as AnalysisResult\<close> is a compile-time cast only).
\<close>

definition analyzeStatement ::
  "(contents \<Rightarrow> api_response) \<Rightarrow> (string \<Rightarrow> json option) \<Rightarrow> analyze_input \<Rightarrow> thrown + json" where
  "analyzeStatement generateContent JSON_parse input =
     (case generateContent (prompt input) of
        Rejected error \<Rightarrow>
          Inl (Error (Some ''Failed to analyze statement. Please ensure the input is clear.''))
      | Response t \<Rightarrow>
          (case JSON_parse (ToString t) of
             None \<Rightarrow>
               Inl (Error (Some ''Failed to analyze statement. Please ensure the input is clear.''))
           | Some result \<Rightarrow> Inr result))"

subsection \<open>The response schema\<close>

text \<open>
  \<open>responseSchema\<close> as a predicate on parsed payloads: an object whose required
  \<open>transactions\<close> is an array of objects with required string fields \<open>id\<close>, \<open>date\<close>,
  \<open>merchant\<close>, a required number \<open>amount\<close>, a required \<open>category\<close> out of
  \<open>Object.values(Category)\<close> and an optional string \<open>originalDescription\<close>; with a
  required number \<open>totalAmount\<close> and an optional string \<open>currency\<close>.
\<close>

definition required_string :: "(string \<times> json) list \<Rightarrow> string \<Rightarrow> bool" where
  "required_string members name =
     (case map_of members name of Some (JString s) \<Rightarrow> True | _ \<Rightarrow> False)"

definition optional_string :: "(string \<times> json) list \<Rightarrow> string \<Rightarrow> bool" where
  "optional_string members name =
     (case map_of members name of None \<Rightarrow> True | Some (JString s) \<Rightarrow> True | _ \<Rightarrow> False)"

definition required_number :: "(string \<times> json) list \<Rightarrow> string \<Rightarrow> bool" where
  "required_number members name =
     (case map_of members name of Some (JNumber n) \<Rightarrow> True | _ \<Rightarrow> False)"

definition required_category :: "(string \<times> json) list \<Rightarrow> bool" where
  "required_category members =
     (case map_of members ''category'' of
        Some (JString s) \<Rightarrow> s \<in> set Category_values
      | _ \<Rightarrow> False)"

definition conforms_transaction :: "json \<Rightarrow> bool" where
  "conforms_transaction v =
     (case v of
        JObject members \<Rightarrow>
          required_string members ''id'' \<and> required_string members ''date'' \<and>
          required_string members ''merchant'' \<and> required_number members ''amount'' \<and>
          required_category members \<and> optional_string members ''originalDescription''
      | _ \<Rightarrow> False)"

definition conforms_responseSchema :: "json \<Rightarrow> bool" where
  "conforms_responseSchema v =
     (case v of
        JObject members \<Rightarrow>
          (case map_of members ''transactions'' of
             Some (JArray items) \<Rightarrow> list_all conforms_transaction items
           | _ \<Rightarrow> False) \<and>
          required_number members ''totalAmount'' \<and> optional_string members ''currency''
      | _ \<Rightarrow> False)"

section \<open>Session state (App.tsx)\<close>

datatype input_mode = TextMode | FileMode

record App_state =
  transactions :: "Transaction list"
  loading :: bool
  error :: "string option"
  pastedText :: string
  inputMode :: input_mode

definition initial_state :: App_state where
  "initial_state =
     \<lparr>transactions = [], loading = False, error = None, pastedText = [], inputMode = FileMode\<rparr>"

text \<open>\<open>err.message || d\<close>: the default replaces an undefined or empty message.\<close>

definition message_or :: "string option \<Rightarrow> string \<Rightarrow> string" where
  "message_or m d = (case m of None \<Rightarrow> d | Some s \<Rightarrow> or_else s d)"

text \<open>
  \<open>processAnalysis\<close>. The imported \<open>analyzeStatement\<close> is the parameter \<open>analyze\<close>, at
  its declared type: the promise rejects with an error or resolves to an
  \<open>AnalysisResult\<close>. The function returns the state after the promise has settled,
  together with the requests it issued.
\<close>

definition processAnalysis ::
  "(analyze_input \<Rightarrow> thrown + AnalysisResult) \<Rightarrow> analyze_input \<Rightarrow> App_state \<Rightarrow>
     App_state \<times> analyze_input list" where
  "processAnalysis analyze input s =
     (let s1 = s\<lparr>loading := True\<rparr>;
          s2 = s1\<lparr>error := None\<rparr>;
          s3 = (case analyze input of
                  Inr result \<Rightarrow>
                    s2\<lparr>transactions :=
                         App_state.transactions s2 @ AnalysisResult.transactions result\<rparr>
                | Inl err \<Rightarrow>
                    s2\<lparr>error :=
                         Some (message_or (message err) ''An error occurred during analysis.'')\<rparr>);
          s4 = s3\<lparr>loading := False\<rparr>
      in (s4, [input]))"

subsection \<open>Pasted text\<close>

text \<open>
  \<open>String.prototype.trim\<close> strips white space and line terminators from both ends.
  Of these, the code units below 256 are TAB, LF, VT, FF, CR, SPACE and NBSP.
\<close>

definition is_WhiteSpace :: "char \<Rightarrow> bool" where
  "is_WhiteSpace c =
     (c \<in> set [CHR 0x09, CHR 0x0A, CHR 0x0B, CHR 0x0C, CHR 0x0D, CHR 0x20, CHR 0xA0])"

definition trim :: "string \<Rightarrow> string" where
  "trim s = rev (dropWhile is_WhiteSpace (rev (dropWhile is_WhiteSpace s)))"

definition handlePasteSubmit ::
  "(analyze_input \<Rightarrow> thrown + AnalysisResult) \<Rightarrow> App_state \<Rightarrow>
     App_state \<times> analyze_input list" where
  "handlePasteSubmit analyze s =
     (if trim (pastedText s) = [] then (s, [])
      else processAnalysis analyze (Text (pastedText s)) s)"

subsection \<open>File upload\<close>

text \<open>
  A selected file, with what \<open>FileReader.readAsDataURL\<close> delivers for it in
  \<open>reader.result\<close> when \<open>onload\<close> fires.
\<close>

record File =
  type' :: string
  dataURL :: string

fun split_on :: "char \<Rightarrow> string \<Rightarrow> string list" where
  "split_on sep [] = [[]]"
| "split_on sep (c # cs) =
     (if c = sep then [] # split_on sep cs
      else (case split_on sep cs of
              [] \<Rightarrow> [[c]]
            | piece # pieces \<Rightarrow> (c # piece) # pieces))"

definition index :: "'a list \<Rightarrow> nat \<Rightarrow> 'a option" where
  "index xs i = (if i < length xs then Some (xs ! i) else None)"

text \<open>\<open>e.target.files?.[0]\<close>: \<open>files\<close> may be \<open>null\<close>, or a list that may be empty.\<close>

definition first_file :: "File list option \<Rightarrow> File option" where
  "first_file files = (case files of None \<Rightarrow> None | Some fs \<Rightarrow> index fs 0)"

definition handleFileUpload ::
  "(analyze_input \<Rightarrow> thrown + AnalysisResult) \<Rightarrow> File list option \<Rightarrow> App_state \<Rightarrow>
     App_state \<times> analyze_input list" where
  "handleFileUpload analyze files s =
     (case first_file files of
        None \<Rightarrow> (s, [])
      | Some file \<Rightarrow>
          (let base64Data = index (split_on CHR '','' (dataURL file)) 1
           in processAnalysis analyze (InlineData base64Data (type' file)) s))"

subsection \<open>Reset\<close>

text \<open>\<open>clearData\<close>; \<open>confirm\<close> is the answer of \<open>window.confirm\<close>.\<close>

definition clearData :: "bool \<Rightarrow> App_state \<Rightarrow> App_state" where
  "clearData confirm s =
     (if confirm then s\<lparr>transactions := [], pastedText := [], error := None\<rparr> else s)"

section \<open>Example data\<close>

definition sample_transactions :: "Transaction list" where
  "sample_transactions =
     [\<lparr>id' = ''t1'', date = ''2024-01-05'', merchant = ''Swiggy'', amount = Fin 500,
        category = FOOD, originalDescription = ''SWIGGY ORDER''\<rparr>,
      \<lparr>id' = ''t2'', date = ''2024-01-06'', merchant = ''Flipkart'', amount = Fin 1200,
        category = SHOPPING, originalDescription = ''FLIPKART''\<rparr>,
      \<lparr>id' = ''t3'', date = ''2024-01-07'', merchant = ''Zomato'', amount = Fin 300,
        category = FOOD, originalDescription = ''ZOMATO''\<rparr>]"

definition sample_result :: AnalysisResult where
  "sample_result = \<lparr>AnalysisResult.transactions = sample_transactions, totalAmount = Fin 2000, currency = ''INR''\<rparr>"

definition sample_state :: App_state where
  "sample_state =
     \<lparr>transactions = [\<lparr>id' = ''t0'', date = '''', merchant = ''Uber'', amount = Fin 250,
                         category = TRANSPORT, originalDescription = ''UBER TRIP''\<rparr>],
      loading = False, error = None, pastedText = ''  '', inputMode = TextMode\<rparr>"

text \<open>
  Amounts whose sum is rounded: \<open>2 ^ 53 + 1\<close> is not a double, and neither are the
  sums of the doubles nearest to 0.1 and 1.1.
\<close>

definition large_transactions :: "Transaction list" where
  "large_transactions =
     [\<lparr>id' = ''a1'', date = ''2024-02-01'', merchant = ''Builder'',
        amount = Fin 9007199254740992, category = FOOD, originalDescription = ''''\<rparr>,
      \<lparr>id' = ''a2'', date = ''2024-02-01'', merchant = ''Kiosk'',
        amount = Fin 1, category = SHOPPING, originalDescription = ''''\<rparr>,
      \<lparr>id' = ''a3'', date = ''2024-02-02'', merchant = ''Builder'',
        amount = Fin (- 9007199254740992), category = FOOD, originalDescription = ''''\<rparr>,
      \<lparr>id' = ''a4'', date = ''2024-02-02'', merchant = ''Kiosk'',
        amount = Fin 1, category = SHOPPING, originalDescription = ''''\<rparr>]"

definition decimal_transactions :: "Transaction list" where
  "decimal_transactions =
     [\<lparr>id' = ''b1'', date = ''2024-02-03'', merchant = ''Tea stall'',
        amount = JSON_number (1 / 10), category = FOOD, originalDescription = ''''\<rparr>,
      \<lparr>id' = ''b2'', date = ''2024-02-03'', merchant = ''Kiosk'',
        amount = JSON_number (1 / 10), category = SHOPPING, originalDescription = ''''\<rparr>,
      \<lparr>id' = ''b3'', date = ''2024-02-04'', merchant = ''Tea stall'',
        amount = JSON_number (11 / 10), category = FOOD, originalDescription = ''''\<rparr>]"

text \<open>
  A statement with the amounts \<open>1e999\<close> and \<open>-1e999\<close> in one category: both
  literals are beyond the largest double.
\<close>

definition literal_1e999 :: rat where
  "literal_1e999 = 10 ^ 999"

definition infinite_transactions :: "Transaction list" where
  "infinite_transactions =
     [\<lparr>id' = ''c1'', date = ''2024-02-05'', merchant = ''Cafe'',
        amount = Fin 5, category = FOOD, originalDescription = ''''\<rparr>,
      \<lparr>id' = ''c2'', date = ''2024-02-05'', merchant = ''Shop'',
        amount = JSON_number literal_1e999, category = SHOPPING, originalDescription = ''''\<rparr>,
      \<lparr>id' = ''c3'', date = ''2024-02-06'', merchant = ''Shop'',
        amount = JSON_number (- literal_1e999), category = SHOPPING, originalDescription = ''''\<rparr>,
      \<lparr>id' = ''c4'', date = ''2024-02-06'', merchant = ''Clinic'',
        amount = Fin 10, category = HEALTH, originalDescription = ''''\<rparr>]"

text \<open>
  A response text whose only transaction carries a category outside the enumeration,
  and the value \<open>JSON.parse\<close> builds from it.
\<close>

definition gambling_text :: string where
  "gambling_text =
     ''{\"transactions\":[{\"id\":\"t1\",\"date\":\"2024-01-05\",\"merchant\":\"Casino\",\"amount\":100,\"category\":\"Gambling\"}],\"totalAmount\":100}''"

definition gambling_payload :: json where
  "gambling_payload =
     JObject
       [(''transactions'',
         JArray
           [JObject
              [(''id'', JString ''t1''), (''date'', JString ''2024-01-05''),
               (''merchant'', JString ''Casino''), (''amount'', JNumber (Fin 100)),
               (''category'', JString ''Gambling'')]]),
        (''totalAmount'', JNumber (Fin 100))]"

text \<open>
  The graph of \<open>JSON.parse\<close> on the response texts of the examples: the text above, an
  empty object, and one text that is not JSON.
\<close>

definition JSON_parse_examples :: "string \<Rightarrow> json option" where
  "JSON_parse_examples s =
     (if s = gambling_text then Some gambling_payload
      else if s = ''{}'' then Some (JObject [])
      else None)"

definition service_gambling :: "contents \<Rightarrow> api_response" where
  "service_gambling c = Response (Some gambling_text)"

definition service_empty_object :: "contents \<Rightarrow> api_response" where
  "service_empty_object c = Response (Some ''{}'')"

definition service_not_json :: "contents \<Rightarrow> api_response" where
  "service_not_json c = Response (Some ''Sorry, I cannot read this statement.'')"

definition service_down :: "contents \<Rightarrow> api_response" where
  "service_down c = Rejected (Error (Some ''fetch failed''))"

definition analyze_sample :: "analyze_input \<Rightarrow> thrown + AnalysisResult" where
  "analyze_sample input = Inr sample_result"

definition analyze_failing :: "analyze_input \<Rightarrow> thrown + AnalysisResult" where
  "analyze_failing input =
     Inl (Error (Some ''Failed to analyze statement. Please ensure the input is clear.''))"

section \<open>Properties of the numbers\<close>

lemma quot_pos:
  assumes "0 < q" and "quotient_of q = (a, b)"
  shows "0 < a" and "0 < b" and "q = of_int a / of_int b"
proof -
  show b: "0 < b" using assms(2) by (rule quotient_of_denom_pos)
  show q: "q = of_int a / of_int b" using assms(2) by (rule quotient_of_div)
  show "0 < a"
    using assms(1) b q by (simp add: zero_less_divide_iff)
qed

lemma pow2_bitlen:
  assumes "0 < (a::int)"
  shows "(2::rat) powi (bitlen a - 1) \<le> of_int a" and "of_int a < (2::rat) powi (bitlen a)"
proof -
  from bitlen_bounds [OF assms]
  have lo: "2 ^ nat (bitlen a - 1) \<le> a" and hi: "a < 2 ^ nat (bitlen a)"
    by auto
  have pos: "1 \<le> bitlen a"
    using assms bitlen_eq_zero_iff [of a] bitlen_nonneg [of a] by linarith
  have "(of_int (2 ^ nat (bitlen a - 1)) :: rat) \<le> of_int a"
    using lo by (simp only: of_int_le_iff)
  then show "(2::rat) powi (bitlen a - 1) \<le> of_int a"
    using pos by (simp add: power_int_def)
  have "(of_int a :: rat) < of_int (2 ^ nat (bitlen a))"
    using hi by (simp only: of_int_less_iff)
  then show "of_int a < (2::rat) powi (bitlen a)"
    using pos by (simp add: power_int_def)
qed

lemma ilog2_bounds:
  assumes "0 < q"
  shows "2 powi (ilog2 q) \<le> q" and "q < 2 powi (ilog2 q + 1)"
proof -
  obtain a b where ab: "quotient_of q = (a, b)"
    by (cases "quotient_of q")
  note pos = quot_pos [OF assms ab]
  let ?d = "bitlen a - bitlen b"
  have qb: "q * of_int b = of_int a"
    using pos by simp
  have low: "(2::rat) powi (?d - 1) \<le> q"
  proof -
    have "(2::rat) powi (?d - 1) * of_int b \<le> 2 powi (?d - 1) * 2 powi (bitlen b)"
      using pow2_bitlen(2) [OF pos(2)] by (intro mult_left_mono) simp_all
    also have "\<dots> = 2 powi (bitlen a - 1)"
      by (simp add: power_int_add [symmetric])
    also have "\<dots> \<le> of_int a"
      by (rule pow2_bitlen(1) [OF pos(1)])
    also have "\<dots> = q * of_int b"
      by (simp only: qb)
    finally show ?thesis
      using pos(2) by simp
  qed
  have high: "q < (2::rat) powi (?d + 1)"
  proof -
    have "q * of_int b = of_int a"
      by (rule qb)
    also have "\<dots> < 2 powi (bitlen a)"
      by (rule pow2_bitlen(2) [OF pos(1)])
    also have "\<dots> = 2 powi (?d + 1) * 2 powi (bitlen b - 1)"
      by (simp add: power_int_add [symmetric])
    also have "\<dots> \<le> 2 powi (?d + 1) * of_int b"
      using pow2_bitlen(1) [OF pos(2)] by (intro mult_left_mono) simp_all
    finally show ?thesis
      using pos(2) by simp
  qed
  show "2 powi (ilog2 q) \<le> q"
    using low by (simp add: ilog2_def ab Let_def)
  show "q < 2 powi (ilog2 q + 1)"
    using high by (auto simp: ilog2_def ab Let_def)
qed

lemma round_half_even_of_int: "round_half_even (of_int k) = k"
  by (simp add: round_half_even_def)

lemma round_half_even_ge_floor: "\<lfloor>x\<rfloor> \<le> round_half_even x"
  by (simp add: round_half_even_def Let_def)


lemma powi_le_exp: "(2::rat) powi a \<le> 2 powi b \<Longrightarrow> a \<le> b"
  by (rule ccontr) (use power_int_strict_increasing [of b a "2::rat"] in simp)

lemma round_exact:
  assumes "\<bar>k\<bar> \<le> (2::int) ^ 53"
  shows "round_double (of_int k) = Fin (of_int k)"
proof (cases "k = 0")
  case True
  then show ?thesis by (simp add: round_double_def)
next
  case False
  let ?q = "of_int k :: rat"
  let ?e = "max (ilog2 \<bar>?q\<bar>) (- 1022)"
  let ?ulp = "(2::rat) powi (?e - 52)"
  have qpos: "0 < \<bar>?q\<bar>" using False by simp
  have le53: "\<bar>?q\<bar> \<le> 2 ^ 53"
  proof -
    have "(of_int \<bar>k\<bar> :: rat) \<le> of_int (2 ^ 53)"
      using assms by (simp only: of_int_le_iff)
    then show ?thesis by simp
  qed
  have "(2::rat) powi (ilog2 \<bar>?q\<bar>) \<le> 2 powi 53"
    using ilog2_bounds(1) [OF qpos] le53 by simp
  then have e0: "ilog2 \<bar>?q\<bar> \<le> 53"
    by (rule powi_le_exp)
  then have e: "?e \<le> 53" by simp
  have "\<exists>m::int. \<bar>?q\<bar> / ?ulp = of_int m"
  proof (cases "?e \<le> 52")
    case True
    then have "\<bar>?q\<bar> / ?ulp = of_int \<bar>k\<bar> * 2 ^ nat (52 - ?e)"
      by (simp add: power_int_def field_simps nat_diff_distrib')
    also have "\<dots> = of_int (\<bar>k\<bar> * 2 ^ nat (52 - ?e))"
      by simp
    finally show ?thesis by blast
  next
    case False
    with e have e53: "?e = 53" by linarith
    then have "ilog2 \<bar>?q\<bar> = 53" by (simp add: max_def split: if_splits)
    with ilog2_bounds(1) [OF qpos] le53 have q53: "\<bar>?q\<bar> = 2 ^ 53" by simp
    have "?ulp = 2"
      by (simp only: e53) simp
    then have "\<bar>?q\<bar> / ?ulp = \<bar>?q\<bar> / 2"
      by (rule arg_cong)
    also have "\<dots> = of_int (2 ^ 52)"
      by (simp only: q53) simp
    finally show ?thesis by blast
  qed
  then obtain m :: int where m: "\<bar>?q\<bar> / ?ulp = of_int m" ..
  have ulp: "0 < ?ulp" by simp
  have r: "of_int (round_half_even (\<bar>?q\<bar> / ?ulp)) * ?ulp = \<bar>?q\<bar>"
  proof -
    have "of_int (round_half_even (\<bar>?q\<bar> / ?ulp)) * ?ulp = (\<bar>?q\<bar> / ?ulp) * ?ulp"
      by (simp only: m round_half_even_of_int)
    also have "\<dots> = \<bar>?q\<bar>"
      using ulp by simp
    finally show ?thesis .
  qed
  have small: "\<not> (2::rat) ^ 1024 \<le> \<bar>?q\<bar>"
  proof -
    have "(2::rat) ^ 53 < 2 ^ 1024"
      by (rule power_strict_increasing) simp_all
    with le53 show ?thesis by linarith
  qed
  have "round_double ?q = Fin (sgn ?q * \<bar>?q\<bar>)"
    using False small unfolding round_double_def Let_def r by simp
  also have "sgn ?q * \<bar>?q\<bar> = ?q"
    by (simp add: sgn_mult_abs)
  finally show ?thesis .
qed


lemma round_double_nonzero:
  assumes "q \<noteq> 0"
  obtains e n where "- 1022 \<le> e" and "e = max (ilog2 \<bar>q\<bar>) (- 1022)"
    and "n = round_half_even (\<bar>q\<bar> / 2 powi (e - 52))"
    and "round_double q =
           (if (2::rat) ^ 1024 \<le> of_int n * 2 powi (e - 52)
            then (if 0 < q then PosInf else NegInf)
            else Fin (sgn q * (of_int n * 2 powi (e - 52))))"
  using assms by (simp add: round_double_def Let_def)

lemma tiny_pos: "0 < tiny"
  by (simp only: tiny_def) simp

lemma ulp_tiny:
  assumes "- 1022 \<le> e"
  shows "(2::rat) powi (e - 52) = of_int (2 ^ nat (e + 1022)) * tiny"
proof -
  have "(2::rat) powi ((e + 1022) + (- 1074)) = 2 powi (e + 1022) * 2 powi (- 1074)"
    by (rule power_int_add) simp
  moreover have "(e + 1022) + (- 1074) = e - 52"
    by simp
  moreover have "(2::rat) powi (e + 1022) = of_int (2 ^ nat (e + 1022))"
    using assms by (simp add: power_int_def)
  ultimately show ?thesis
    by (simp only: tiny_def)
qed

lemma round_grid:
  assumes "round_double q = Fin r"
  shows "on_grid r"
proof (cases "q = 0")
  case True
  with assms show ?thesis by (simp add: round_double_def on_grid_def)
next
  case False
  then obtain e n where e: "- 1022 \<le> e"
    and rd: "round_double q =
           (if (2::rat) ^ 1024 \<le> of_int n * 2 powi (e - 52)
            then (if 0 < q then PosInf else NegInf)
            else Fin (sgn q * (of_int n * 2 powi (e - 52))))"
    by (rule round_double_nonzero)
  from assms rd have r: "r = sgn q * (of_int n * 2 powi (e - 52))"
    by (simp split: if_splits)
  have "r = (sgn q * of_int (n * 2 ^ nat (e + 1022))) * tiny"
    by (simp only: r ulp_tiny [OF e] of_int_mult mult.assoc)
  then have "r / tiny = sgn q * of_int (n * 2 ^ nat (e + 1022))"
    using tiny_pos by simp
  moreover have "sgn q \<in> \<int>"
    by (cases "0 < q") (use False in \<open>simp_all add: sgn_if\<close>)
  ultimately show ?thesis
    by (simp add: on_grid_def)
qed

lemma grid_ge:
  assumes "on_grid q" and "0 < q"
  shows "tiny \<le> q"
proof -
  from assms(1) obtain k :: int where k: "q / tiny = of_int k"
    by (auto simp: on_grid_def Ints_def)
  have "0 < q / tiny"
    using assms(2) tiny_pos by simp
  then have "(0::rat) < of_int k"
    by (simp only: k)
  then have "1 \<le> k"
    by simp
  then have "(1::rat) \<le> of_int k"
    by simp
  then have "1 \<le> q / tiny"
    by (simp only: k)
  then show ?thesis
    using tiny_pos by (simp add: field_simps)
qed

lemma round_positive:
  assumes "on_grid q" and "0 < q"
  shows "positive (round_double q)"
proof -
  have q0: "q \<noteq> 0" using assms(2) by simp
  have aq: "\<bar>q\<bar> = q" using assms(2) by simp
  from q0 obtain e n where e: "- 1022 \<le> e" and e_def: "e = max (ilog2 \<bar>q\<bar>) (- 1022)"
    and n: "n = round_half_even (\<bar>q\<bar> / 2 powi (e - 52))"
    and rd: "round_double q =
           (if (2::rat) ^ 1024 \<le> of_int n * 2 powi (e - 52)
            then (if 0 < q then PosInf else NegInf)
            else Fin (sgn q * (of_int n * 2 powi (e - 52))))"
    by (rule round_double_nonzero)
  let ?ulp = "(2::rat) powi (e - 52)"
  have ulp: "0 < ?ulp" by simp
  have "?ulp \<le> q"
  proof (cases "ilog2 q \<le> - 1022")
    case True
    then have "e = - 1022" by (simp add: e_def aq)
    then have "?ulp = 2 powi (- 1022 - 52)" by (simp only:)
    also have "\<dots> = tiny" by (simp only: tiny_def) simp
    also have "\<dots> \<le> q" by (rule grid_ge [OF assms])
    finally show ?thesis .
  next
    case False
    then have "e = ilog2 q" by (simp add: e_def aq)
    then have "?ulp \<le> 2 powi (ilog2 q)"
      by (simp add: power_int_increasing)
    also have "\<dots> \<le> q" by (rule ilog2_bounds(1) [OF assms(2)])
    finally show ?thesis .
  qed
  then have "1 \<le> q / ?ulp"
    using ulp by (simp add: field_simps)
  then have "1 \<le> \<lfloor>q / ?ulp\<rfloor>"
    by simp
  moreover have "\<lfloor>q / ?ulp\<rfloor> \<le> n"
    unfolding n aq by (rule round_half_even_ge_floor)
  ultimately have "1 \<le> n"
    by linarith
  then have "0 < of_int n * ?ulp"
    using ulp by simp
  then show ?thesis
    using rd assms(2) by simp
qed

lemma round_not_positive:
  assumes "q \<le> 0"
  shows "\<not> positive (round_double q)"
proof (cases "q = 0")
  case True
  then show ?thesis by (simp add: round_double_def)
next
  case False
  with assms have neg: "q < 0" by simp
  from False obtain e n where n: "n = round_half_even (\<bar>q\<bar> / 2 powi (e - 52))"
    and rd: "round_double q =
           (if (2::rat) ^ 1024 \<le> of_int n * 2 powi (e - 52)
            then (if 0 < q then PosInf else NegInf)
            else Fin (sgn q * (of_int n * 2 powi (e - 52))))"
    by (rule round_double_nonzero)
  have "0 \<le> \<bar>q\<bar> / 2 powi (e - 52)"
    by simp
  then have "0 \<le> \<lfloor>\<bar>q\<bar> / 2 powi (e - 52)\<rfloor>"
    by simp
  moreover have "\<lfloor>\<bar>q\<bar> / 2 powi (e - 52)\<rfloor> \<le> n"
    unfolding n by (rule round_half_even_ge_floor)
  ultimately have "0 \<le> n"
    by linarith
  then have "0 \<le> of_int n * (2::rat) powi (e - 52)"
    by simp
  then have "sgn q * (of_int n * 2 powi (e - 52)) \<le> 0"
    using neg by (simp add: mult_le_0_iff)
  then show ?thesis
    using rd neg by simp
qed

subsection \<open>Rounding of particular values\<close>

lemma round_double_0: "round_double 0 = Fin 0"
  by (simp add: round_double_def)

lemma round_double_1: "round_double 1 = Fin 1"
  using round_exact [of 1] by simp

lemma round_double_numeral:
  "numeral n \<le> (2::int) ^ 53 \<Longrightarrow> round_double (numeral n) = Fin (numeral n)"
  using round_exact [of "numeral n"] by simp

lemma round_double_neg_numeral:
  "numeral n \<le> (2::int) ^ 53 \<Longrightarrow> round_double (- numeral n) = Fin (- numeral n)"
  using round_exact [of "- numeral n"] by simp

lemma round_double_overflow:
  assumes "2 ^ 1024 \<le> \<bar>q\<bar>"
  shows "round_double q = (if 0 < q then PosInf else NegInf)"
proof -
  define T :: rat where "T = 2 ^ 1024"
  have "(2::rat) powi (int 1024) = 2 ^ 1024"
    by (rule power_int_of_nat)
  moreover have "int 1024 = 1024"
    by simp
  ultimately have T_powi: "T = 2 powi 1024"
    by (simp only: T_def)
  have T_pos: "0 < T"
    unfolding T_def by (rule zero_less_power) simp
  have T_le: "T \<le> \<bar>q\<bar>"
    using assms by (simp only: T_def)
  with T_pos have qpos: "0 < \<bar>q\<bar>"
    by linarith
  then have q0: "q \<noteq> 0"
    by auto
  from q0 obtain e n where e_def: "e = max (ilog2 \<bar>q\<bar>) (- 1022)"
    and n: "n = round_half_even (\<bar>q\<bar> / 2 powi (e - 52))"
    and rd: "round_double q =
           (if (2::rat) ^ 1024 \<le> of_int n * 2 powi (e - 52)
            then (if 0 < q then PosInf else NegInf)
            else Fin (sgn q * (of_int n * 2 powi (e - 52))))"
    by (rule round_double_nonzero)
  let ?ulp = "(2::rat) powi (e - 52)"
  have rd': "round_double q =
           (if T \<le> of_int n * ?ulp then (if 0 < q then PosInf else NegInf)
            else Fin (sgn q * (of_int n * ?ulp)))"
    using rd by (simp only: T_def)
  have ulp: "0 < ?ulp"
    by (rule zero_less_power_int) simp
  have big: "1024 < ilog2 \<bar>q\<bar> + 1"
  proof (rule ccontr)
    assume "\<not> 1024 < ilog2 \<bar>q\<bar> + 1"
    then have "ilog2 \<bar>q\<bar> + 1 \<le> 1024"
      by simp
    then have "(2::rat) powi (ilog2 \<bar>q\<bar> + 1) \<le> 2 powi 1024"
      by (rule power_int_increasing) simp
    also have "\<dots> \<le> \<bar>q\<bar>"
      using T_le by (simp only: T_powi)
    also have "\<bar>q\<bar> < 2 powi (ilog2 \<bar>q\<bar> + 1)"
      by (rule ilog2_bounds(2) [OF qpos])
    finally show False
      by simp
  qed
  then have e: "1024 \<le> e" and e_eq: "e = ilog2 \<bar>q\<bar>"
    by (simp_all add: e_def)
  have le_q: "(2::rat) powi e \<le> \<bar>q\<bar>"
    unfolding e_eq by (rule ilog2_bounds(1) [OF qpos])
  have split: "(2::rat) powi e = of_int (2 ^ 52) * ?ulp"
  proof -
    have "(2::rat) powi (52 + (e - 52)) = 2 powi 52 * 2 powi (e - 52)"
      by (rule power_int_add) simp
    then show ?thesis
      by simp
  qed
  have "of_int (2 ^ 52) * ?ulp \<le> \<bar>q\<bar>"
    using le_q by (simp only: split)
  then have "of_int (2 ^ 52) \<le> \<bar>q\<bar> / ?ulp"
    using ulp by (simp only: pos_le_divide_eq)
  then have "2 ^ 52 \<le> \<lfloor>\<bar>q\<bar> / ?ulp\<rfloor>"
    by (simp only: le_floor_iff)
  moreover have "\<lfloor>\<bar>q\<bar> / ?ulp\<rfloor> \<le> n"
    unfolding n by (rule round_half_even_ge_floor)
  ultimately have "2 ^ 52 \<le> n"
    by linarith
  then have "(of_int (2 ^ 52) :: rat) \<le> of_int n"
    by (simp only: of_int_le_iff)
  then have "of_int (2 ^ 52) * ?ulp \<le> of_int n * ?ulp"
    using ulp by (rule mult_right_mono [OF _ less_imp_le])
  then have "(2::rat) powi e \<le> of_int n * ?ulp"
    by (simp only: split)
  moreover have "(2::rat) powi 1024 \<le> 2 powi e"
    using e by (rule power_int_increasing) simp
  ultimately have "T \<le> of_int n * ?ulp"
    unfolding T_powi by (rule order_trans [rotated])
  with rd' show ?thesis
    by simp
qed

lemma literal_1e999_large: "2 ^ 1024 \<le> literal_1e999"
proof -
  have "(2::rat) ^ 1024 \<le> 2 ^ (3 * 999)"
    by (rule power_increasing) simp_all
  also have "\<dots> = (2 ^ 3) ^ 999"
    by (rule power_mult)
  also have "\<dots> \<le> 10 ^ 999"
    by (rule power_mono) simp_all
  finally show ?thesis
    by (simp only: literal_1e999_def)
qed

lemma literal_1e999_pos: "0 < literal_1e999"
  unfolding literal_1e999_def by (rule zero_less_power) simp

lemma JSON_number_1e999: "JSON_number literal_1e999 = PosInf"
proof -
  have "\<bar>literal_1e999\<bar> = literal_1e999"
    using literal_1e999_pos by (rule abs_of_pos)
  with literal_1e999_large have "2 ^ 1024 \<le> \<bar>literal_1e999\<bar>"
    by (simp only:)
  then have "round_double literal_1e999 = (if 0 < literal_1e999 then PosInf else NegInf)"
    by (rule round_double_overflow)
  with literal_1e999_pos show ?thesis
    by (simp only: JSON_number_def if_True)
qed

lemma JSON_number_minus_1e999: "JSON_number (- literal_1e999) = NegInf"
proof -
  have "\<bar>- literal_1e999\<bar> = literal_1e999"
    using literal_1e999_pos by (simp only: abs_minus_cancel abs_of_pos)
  with literal_1e999_large have "2 ^ 1024 \<le> \<bar>- literal_1e999\<bar>"
    by (simp only:)
  then have "round_double (- literal_1e999) =
               (if 0 < - literal_1e999 then PosInf else NegInf)"
    by (rule round_double_overflow)
  moreover have "\<not> 0 < - literal_1e999"
    using literal_1e999_pos by simp
  ultimately show ?thesis
    by (simp only: JSON_number_def if_False)
qed

text \<open>The sum \<open>2 ^ 53 + 1\<close> lies halfway between two doubles and goes to the even one.\<close>

lemma round_tie: "round_double 9007199254740993 = Fin 9007199254740992"
  by code_simp

text \<open>
  The doubles nearest to 0.1 and 1.1, and the sums of the second example:
  0.1 + 0.1 = 0.2, 0.2 + 1.1 = 1.3 and 0.1 + 1.1 = 1.2000000000000002.
\<close>

lemma JSON_number_tenth:
  "JSON_number (1 / 10) = Fin (3602879701896397 / 36028797018963968)"
  by code_simp

lemma JSON_number_eleven_tenths:
  "JSON_number (11 / 10) = Fin (2476979795053773 / 2251799813685248)"
  by code_simp

lemma sum_zero_tenth:
  "fadd (Fin 0) (Fin (3602879701896397 / 36028797018963968)) =
     Fin (3602879701896397 / 36028797018963968)"
  by code_simp

lemma sum_tenth_tenth:
  "fadd (Fin (3602879701896397 / 36028797018963968))
        (Fin (3602879701896397 / 36028797018963968)) =
     Fin (3602879701896397 / 18014398509481984)"
  by code_simp

lemma sum_fifth_eleven_tenths:
  "fadd (Fin (3602879701896397 / 18014398509481984))
        (Fin (2476979795053773 / 2251799813685248)) =
     Fin (5854679515581645 / 4503599627370496)"
  by code_simp

lemma sum_tenth_eleven_tenths:
  "fadd (Fin (3602879701896397 / 36028797018963968))
        (Fin (2476979795053773 / 2251799813685248)) =
     Fin (1351079888211149 / 1125899906842624)"
  by code_simp

lemma not_positive_fadd: "a + b \<le> 0 \<Longrightarrow> \<not> positive (fadd (Fin a) (Fin b))"
  by (simp add: round_not_positive)

section \<open>Properties of the Aggregator\<close>

subsection \<open>The summary object\<close>

lemma keys_update_entry: "map fst (update_entry k f summary) = map fst summary"
  by (induction summary) auto

lemma map_of_None_iff_key: "(map_of summary k = None) = (k \<notin> set (map fst summary))"
  by (induction summary) auto

lemma keys_forEach_body:
  "map fst (forEach_body summary t) =
     (if Transaction.category t \<in> set (map fst summary) then map fst summary
      else map fst summary @ [Transaction.category t])"
  by (simp add: forEach_body_def ensure_entry_def Let_def keys_update_entry map_of_None_iff_key)

lemma keys_forEach:
  "distinct (map fst summary) \<Longrightarrow>
     distinct (map fst (foldl forEach_body summary ts)) \<and>
     set (map fst (foldl forEach_body summary ts)) =
       set (map fst summary) \<union> Transaction.category ` set ts"
proof (induction ts arbitrary: summary)
  case Nil
  then show ?case by simp
next
  case (Cons t ts)
  have d: "distinct (map fst (forEach_body summary t))"
    using Cons.prems by (simp add: keys_forEach_body)
  have s: "set (map fst (forEach_body summary t)) =
             insert (Transaction.category t) (set (map fst summary))"
    by (auto simp: keys_forEach_body)
  from Cons.IH [OF d] s show ?case by auto
qed

lemma keyed_update_entry:
  "keyed summary \<Longrightarrow> (\<And>v. ExpenseSummary.category (f v) = ExpenseSummary.category v) \<Longrightarrow>
     keyed (update_entry k f summary)"
  by (induction summary) (auto simp: keyed_def split: if_splits)

lemma keyed_forEach_body: "keyed summary \<Longrightarrow> keyed (forEach_body summary t)"
proof -
  assume k: "keyed summary"
  let ?k = "Transaction.category t"
  let ?new = "\<lparr>category = ?k, total' = Fin 0, count = 0,
                 color = or_else (CATEGORY_COLORS ?k) ''#94A3B8''\<rparr>"
  have "keyed (summary @ [(?k, ?new)])"
    using k by (auto simp: keyed_def)
  with k show ?thesis
    by (simp add: forEach_body_def ensure_entry_def Let_def keyed_update_entry)
qed

lemma keyed_forEach: "keyed summary \<Longrightarrow> keyed (foldl forEach_body summary ts)"
  by (induction ts arbitrary: summary) (simp_all add: keyed_forEach_body)

lemma counts_update_entry_count:
  "k \<in> set (map fst summary) \<Longrightarrow>
     sum_list (map (count \<circ> snd) (update_entry k (\<lambda>s. s\<lparr>count := count s + n\<rparr>) summary)) =
       sum_list (map (count \<circ> snd) summary) + n"
  by (induction summary) (auto simp: rev_image_eqI)

lemma counts_update_entry_total:
  "sum_list (map (count \<circ> snd) (update_entry k (\<lambda>s. s\<lparr>total' := g s\<rparr>) summary)) =
     sum_list (map (count \<circ> snd) summary)"
  by (induction summary) auto

lemma forEach_body_unfold:
  "forEach_body summary t =
     update_entry (Transaction.category t) (\<lambda>s. s\<lparr>count := count s + 1\<rparr>)
       (update_entry (Transaction.category t) (\<lambda>s. s\<lparr>total' := fadd (total' s) (amount t)\<rparr>)
          (ensure_entry summary (Transaction.category t)))"
  by (simp only: forEach_body_def Let_def)

lemma key_ensure_entry: "k \<in> set (map fst (ensure_entry summary k))"
  by (simp add: ensure_entry_def map_of_None_iff_key)

lemma counts_ensure_entry:
  "sum_list (map (count \<circ> snd) (ensure_entry summary k)) = sum_list (map (count \<circ> snd) summary)"
  by (simp add: ensure_entry_def)

lemma counts_forEach_body:
  "sum_list (map (count \<circ> snd) (forEach_body summary t)) =
     sum_list (map (count \<circ> snd) summary) + 1"
proof -
  let ?k = "Transaction.category t"
  let ?s2 = "update_entry ?k (\<lambda>s. s\<lparr>total' := fadd (total' s) (amount t)\<rparr>) (ensure_entry summary ?k)"
  have "?k \<in> set (map fst ?s2)"
    by (simp only: keys_update_entry key_ensure_entry)
  then have "sum_list (map (count \<circ> snd) (update_entry ?k (\<lambda>s. s\<lparr>count := count s + 1\<rparr>) ?s2)) =
               sum_list (map (count \<circ> snd) ?s2) + 1"
    by (rule counts_update_entry_count)
  then show ?thesis
    by (simp only: forEach_body_unfold counts_update_entry_total counts_ensure_entry)
qed

lemma counts_forEach:
  "sum_list (map (count \<circ> snd) (foldl forEach_body summary ts)) =
     sum_list (map (count \<circ> snd) summary) + length ts"
  by (induction ts arbitrary: summary) (simp_all add: counts_forEach_body)

subsection \<open>Sorting\<close>

lemma set_insert_sorted: "set (insert_sorted cmp x ys) = insert x (set ys)"
  by (induction ys) auto

lemma set_Array_sort: "set (Array_sort cmp xs) = set xs"
  unfolding Array_sort_def by (induction xs) (simp_all add: set_insert_sorted)

lemma sum_list_insert_sorted:
  fixes f :: "'a \<Rightarrow> 'b::comm_monoid_add"
  shows "sum_list (map f (insert_sorted cmp x ys)) = f x + sum_list (map f ys)"
  by (induction ys) (simp_all add: add.left_commute)

lemma sum_list_Array_sort:
  fixes f :: "'a \<Rightarrow> 'b::comm_monoid_add"
  shows "sum_list (map f (Array_sort cmp xs)) = sum_list (map f xs)"
  unfolding Array_sort_def by (induction xs) (simp_all add: sum_list_insert_sorted)

lemma distinct_map_insert_sorted:
  "distinct (map f (insert_sorted cmp x ys)) = (f x \<notin> f ` set ys \<and> distinct (map f ys))"
  by (induction ys) (auto simp: set_insert_sorted)

lemma distinct_map_Array_sort:
  "distinct (map f (Array_sort cmp xs)) = distinct (map f xs)"
  unfolding Array_sort_def
proof (induction xs)
  case Nil
  then show ?case by simp
next
  case (Cons x xs)
  have "set (foldr (insert_sorted cmp) xs []) = set xs"
    using set_Array_sort [of cmp xs] by (simp add: Array_sort_def)
  with Cons show ?case by (simp add: distinct_map_insert_sorted)
qed

subsection \<open>The comparator and the order of the output\<close>

lemma fge_trans: "fge x y \<Longrightarrow> fge y z \<Longrightarrow> fge x z"
  by (cases x; cases y; cases z) simp_all

lemma fge_linear: "x \<noteq> NaN \<Longrightarrow> y \<noteq> NaN \<Longrightarrow> \<not> fge x y \<Longrightarrow> fge y x"
  by (cases x; cases y) simp_all

lemma on_grid_diff: "on_grid a \<Longrightarrow> on_grid b \<Longrightarrow> on_grid (b - a)"
proof -
  assume "on_grid a" and "on_grid b"
  then have "b / tiny - a / tiny \<in> \<int>"
    unfolding on_grid_def by (rule Ints_diff [rotated])
  moreover have "(b - a) / tiny = b / tiny - a / tiny"
    by (simp add: diff_divide_distrib)
  ultimately show ?thesis
    by (simp only: on_grid_def)
qed

lemma representable_fadd: "representable (fadd x y)"
proof (cases "\<exists>a b. x = Fin a \<and> y = Fin b")
  case True
  then obtain a b where "x = Fin a" and "y = Fin b"
    by blast
  then show ?thesis
    by (cases "round_double (a + b)") (simp_all add: round_grid)
next
  case False
  then show ?thesis
    by (cases x; cases y) simp_all
qed

lemma comparator_sign:
  assumes "representable x" and "representable y" and "x \<noteq> NaN" and "y \<noteq> NaN"
  shows "positive (fsub y x) = (\<not> fge x y)"
proof (cases "\<exists>a b. x = Fin a \<and> y = Fin b")
  case True
  then obtain a b where x: "x = Fin a" and y: "y = Fin b"
    by blast
  from assms(1,2) have g: "on_grid (b - a)"
    by (simp add: x y on_grid_diff)
  show ?thesis
  proof (cases "0 < b - a")
    case True
    with g have "positive (round_double (b - a))"
      by (rule round_positive)
    with True show ?thesis
      by (simp add: x y fsub_def)
  next
    case False
    then have "b - a \<le> 0"
      by simp
    then have "\<not> positive (round_double (b - a))"
      by (rule round_not_positive)
    with False show ?thesis
      by (simp add: x y fsub_def)
  qed
next
  case False
  with assms(3,4) show ?thesis
    by (cases x; cases y) (simp_all add: fsub_def)
qed

lemma descending_insert_sorted:
  assumes "\<forall>s \<in> set (x # ys). representable (total' s) \<and> total' s \<noteq> NaN"
    and "sorted_wrt (\<lambda>a b. fge (total' a) (total' b)) ys"
  shows "sorted_wrt (\<lambda>a b. fge (total' a) (total' b))
           (insert_sorted (\<lambda>a b. fsub (total' b) (total' a)) x ys)"
  using assms
proof (induction ys)
  case Nil
  then show ?case by simp
next
  case (Cons y ys)
  have sign: "positive (fsub (total' y) (total' x)) = (\<not> fge (total' x) (total' y))"
    using Cons.prems(1) by (simp add: comparator_sign)
  show ?case
  proof (cases "fge (total' x) (total' y)")
    case True
    have "\<forall>z \<in> set ys. fge (total' x) (total' z)"
      using Cons.prems(2) True by (auto intro: fge_trans)
    with True Cons.prems(2) sign show ?thesis
      by simp
  next
    case False
    have yx: "fge (total' y) (total' x)"
      using Cons.prems(1) False by (simp add: fge_linear)
    have "sorted_wrt (\<lambda>a b. fge (total' a) (total' b))
            (insert_sorted (\<lambda>a b. fsub (total' b) (total' a)) x ys)"
      using Cons.prems by (intro Cons.IH) simp_all
    with False sign yx Cons.prems(2) show ?thesis
      by (simp add: set_insert_sorted)
  qed
qed

lemma descending_Array_sort:
  "\<forall>s \<in> set xs. representable (total' s) \<and> total' s \<noteq> NaN \<Longrightarrow>
     sorted_wrt (\<lambda>a b. fge (total' a) (total' b))
       (Array_sort (\<lambda>a b. fsub (total' b) (total' a)) xs)"
proof (induction xs)
  case Nil
  then show ?case by (simp add: Array_sort_def)
next
  case (Cons x xs)
  have s: "set (Array_sort (\<lambda>a b. fsub (total' b) (total' a)) xs) = set xs"
    by (rule set_Array_sort)
  have "sorted_wrt (\<lambda>a b. fge (total' a) (total' b))
          (insert_sorted (\<lambda>a b. fsub (total' b) (total' a)) x
             (Array_sort (\<lambda>a b. fsub (total' b) (total' a)) xs))"
    using Cons by (intro descending_insert_sorted) (simp_all add: s)
  then show ?case
    by (simp add: Array_sort_def)
qed

subsection \<open>What the totals can be\<close>

lemma totals_update_entry:
  assumes "list_all (\<lambda>e. P (total' (snd e))) summary"
    and "\<And>v. P (total' v) \<Longrightarrow> P (total' (f v))"
  shows "list_all (\<lambda>e. P (total' (snd e))) (update_entry k f summary)"
  using assms by (induction summary) auto

lemma totals_forEach_body:
  assumes "list_all (\<lambda>e. P (total' (snd e))) summary"
    and "P (Fin 0)"
    and "\<And>x. P x \<Longrightarrow> P (fadd x (amount t))"
  shows "list_all (\<lambda>e. P (total' (snd e))) (forEach_body summary t)"
proof -
  have "list_all (\<lambda>e. P (total' (snd e))) (ensure_entry summary (Transaction.category t))"
    using assms(1,2) by (simp add: ensure_entry_def)
  then have "list_all (\<lambda>e. P (total' (snd e)))
               (update_entry (Transaction.category t)
                  (\<lambda>s. s\<lparr>total' := fadd (total' s) (amount t)\<rparr>)
                  (ensure_entry summary (Transaction.category t)))"
    by (rule totals_update_entry) (simp add: assms(3))
  then have "list_all (\<lambda>e. P (total' (snd e)))
               (update_entry (Transaction.category t) (\<lambda>s. s\<lparr>count := count s + 1\<rparr>)
                  (update_entry (Transaction.category t)
                     (\<lambda>s. s\<lparr>total' := fadd (total' s) (amount t)\<rparr>)
                     (ensure_entry summary (Transaction.category t))))"
    by (rule totals_update_entry) simp
  then show ?thesis
    by (simp only: forEach_body_unfold)
qed

lemma totals_forEach:
  assumes "list_all (\<lambda>e. P (total' (snd e))) summary"
    and "P (Fin 0)"
    and "\<And>x t. t \<in> set ts \<Longrightarrow> P x \<Longrightarrow> P (fadd x (amount t))"
  shows "list_all (\<lambda>e. P (total' (snd e))) (foldl forEach_body summary ts)"
  using assms
proof (induction ts arbitrary: summary)
  case Nil
  then show ?case by simp
next
  case (Cons t ts)
  have "list_all (\<lambda>e. P (total' (snd e))) (forEach_body summary t)"
    using Cons.prems by (intro totals_forEach_body) simp_all
  then show ?case
    using Cons.prems by (simp add: Cons.IH)
qed

lemma totals_representable:
  "list_all (\<lambda>e. representable (total' (snd e))) (foldl forEach_body [] ts)"
proof (rule totals_forEach)
  show "list_all (\<lambda>e. representable (total' (snd e))) []"
    by simp
  show "representable (Fin 0)"
    by (simp add: on_grid_def)
  show "representable (fadd x (amount t))" for x t
    by (rule representable_fadd)
qed

lemma fadd_finite_not_NaN: "x \<noteq> NaN \<Longrightarrow> is_finite y \<Longrightarrow> fadd x y \<noteq> NaN"
proof -
  assume x: "x \<noteq> NaN" and "is_finite y"
  then obtain b where y: "y = Fin b"
    by (cases y) simp_all
  show ?thesis
  proof (cases x)
    case (Fin a)
    then show ?thesis
      by (simp add: y round_double_def Let_def)
  qed (use x in \<open>simp_all add: y\<close>)
qed

lemma totals_not_NaN:
  assumes "list_all (\<lambda>t. is_finite (amount t)) ts"
  shows "list_all (\<lambda>e. total' (snd e) \<noteq> NaN) (foldl forEach_body [] ts)"
proof (rule totals_forEach)
  show "list_all (\<lambda>e. total' (snd e) \<noteq> NaN) []"
    by simp
  show "Fin 0 \<noteq> NaN"
    by simp
  show "fadd x (amount t) \<noteq> NaN" if "t \<in> set ts" and "x \<noteq> NaN" for x t
    using that assms by (simp add: fadd_finite_not_NaN list_all_iff)
qed

lemma categories_summary:
  "map ExpenseSummary.category (Object_values (foldl forEach_body [] ts)) =
     map fst (foldl forEach_body [] ts)"
proof -
  have "keyed (foldl forEach_body [] ts)"
    by (rule keyed_forEach) (simp add: keyed_def)
  then show ?thesis
    by (auto simp: keyed_def Object_values_def)
qed


lemma Category_value_inj: "inj Category_value"
proof (rule injI)
  fix a b
  assume "Category_value a = Category_value b"
  then show "a = b"
    by (cases a; cases b; simp)
qed
subsection \<open>Whole amounts that add up without rounding\<close>

lemma fadd_whole:
  assumes "is_whole x" and "is_whole y"
    and "\<bar>finite_value x\<bar> + \<bar>finite_value y\<bar> \<le> 2 ^ 53"
  shows "fadd x y = Fin (finite_value x + finite_value y) \<and>
         is_whole (Fin (finite_value x + finite_value y))"
proof -
  from assms(1) obtain i :: int where x: "x = Fin (of_int i)"
    by (cases x) (auto simp: Ints_def)
  from assms(2) obtain j :: int where y: "y = Fin (of_int j)"
    by (cases y) (auto simp: Ints_def)
  have "(of_int (\<bar>i\<bar> + \<bar>j\<bar>) :: rat) \<le> of_int (2 ^ 53)"
    using assms(3) by (simp add: x y)
  then have "\<bar>i\<bar> + \<bar>j\<bar> \<le> 2 ^ 53"
    by (simp only: of_int_le_iff)
  then have "\<bar>i + j\<bar> \<le> 2 ^ 53"
    by linarith
  then have "round_double (of_int (i + j)) = Fin (of_int (i + j))"
    by (rule round_exact)
  then show ?thesis
    by (simp add: x y)
qed

lemma abs_total_nonneg:
  "0 \<le> sum_list (map (\<lambda>e. \<bar>finite_value (total' (snd e))\<bar>) summary)"
  by (induction summary) simp_all

lemma update_entry_exact:
  assumes "k \<in> fst ` set summary"
    and "list_all (\<lambda>e. is_whole (total' (snd e))) summary"
    and "is_whole a"
    and "sum_list (map (\<lambda>e. \<bar>finite_value (total' (snd e))\<bar>) summary) + \<bar>finite_value a\<bar>
           \<le> 2 ^ 53"
  shows "list_all (\<lambda>e. is_whole (total' (snd e)))
           (update_entry k (\<lambda>s. s\<lparr>total' := fadd (total' s) a\<rparr>) summary) \<and>
         sum_list (map (\<lambda>e. finite_value (total' (snd e)))
           (update_entry k (\<lambda>s. s\<lparr>total' := fadd (total' s) a\<rparr>) summary)) =
           sum_list (map (\<lambda>e. finite_value (total' (snd e))) summary) + finite_value a \<and>
         sum_list (map (\<lambda>e. \<bar>finite_value (total' (snd e))\<bar>)
           (update_entry k (\<lambda>s. s\<lparr>total' := fadd (total' s) a\<rparr>) summary)) \<le>
           sum_list (map (\<lambda>e. \<bar>finite_value (total' (snd e))\<bar>) summary) + \<bar>finite_value a\<bar>"
  using assms
proof (induction summary)
  case Nil
  then show ?case by simp
next
  case (Cons e summary)
  obtain k' v where e: "e = (k', v)"
    by (cases e)
  note rest_nonneg = abs_total_nonneg [of summary]
  show ?case
  proof (cases "k' = k")
    case True
    have "\<bar>finite_value (total' v)\<bar> + \<bar>finite_value a\<bar> \<le> 2 ^ 53"
      using Cons.prems(4) rest_nonneg by (simp add: e)
    with Cons.prems(2,3)
    have f: "fadd (total' v) a = Fin (finite_value (total' v) + finite_value a)"
      and w: "is_whole (Fin (finite_value (total' v) + finite_value a))"
      using fadd_whole [of "total' v" a] by (simp_all add: e)
    have "\<bar>finite_value (total' v) + finite_value a\<bar> \<le>
            \<bar>finite_value (total' v)\<bar> + \<bar>finite_value a\<bar>"
      by (rule abs_triangle_ineq)
    with True f w Cons.prems(2) show ?thesis
      by (simp add: e)
  next
    case False
    have "k \<in> fst ` set summary"
      using Cons.prems(1) False by (auto simp: e)
    moreover have "list_all (\<lambda>e. is_whole (total' (snd e))) summary"
      using Cons.prems(2) by simp
    moreover have
      "sum_list (map (\<lambda>e. \<bar>finite_value (total' (snd e))\<bar>) summary) + \<bar>finite_value a\<bar>
         \<le> 2 ^ 53"
      using Cons.prems(4) by (simp add: e)
    ultimately show ?thesis
      using Cons.IH Cons.prems(2,3) False by (simp add: e)
  qed
qed

lemma update_entry_same_totals:
  assumes "\<And>v. total' (f v) = total' v"
  shows "map (\<lambda>e. total' (snd e)) (update_entry k f summary) = map (\<lambda>e. total' (snd e)) summary"
  by (induction summary) (auto simp: assms)

lemma forEach_body_exact:
  assumes "list_all (\<lambda>e. is_whole (total' (snd e))) summary"
    and "is_whole (amount t)"
    and "sum_list (map (\<lambda>e. \<bar>finite_value (total' (snd e))\<bar>) summary) +
           \<bar>finite_value (amount t)\<bar> \<le> 2 ^ 53"
  shows "list_all (\<lambda>e. is_whole (total' (snd e))) (forEach_body summary t) \<and>
         sum_list (map (\<lambda>e. finite_value (total' (snd e))) (forEach_body summary t)) =
           sum_list (map (\<lambda>e. finite_value (total' (snd e))) summary) + finite_value (amount t) \<and>
         sum_list (map (\<lambda>e. \<bar>finite_value (total' (snd e))\<bar>) (forEach_body summary t)) \<le>
           sum_list (map (\<lambda>e. \<bar>finite_value (total' (snd e))\<bar>) summary) +
             \<bar>finite_value (amount t)\<bar>"
proof -
  let ?k = "Transaction.category t"
  let ?s1 = "ensure_entry summary ?k"
  let ?s2 = "update_entry ?k (\<lambda>s. s\<lparr>total' := fadd (total' s) (amount t)\<rparr>) ?s1"
  have w1: "list_all (\<lambda>e. is_whole (total' (snd e))) ?s1"
    using assms(1) by (simp add: ensure_entry_def)
  have v1: "sum_list (map (\<lambda>e. finite_value (total' (snd e))) ?s1) =
              sum_list (map (\<lambda>e. finite_value (total' (snd e))) summary)"
    by (simp add: ensure_entry_def)
  have a1: "sum_list (map (\<lambda>e. \<bar>finite_value (total' (snd e))\<bar>) ?s1) =
              sum_list (map (\<lambda>e. \<bar>finite_value (total' (snd e))\<bar>) summary)"
    by (simp add: ensure_entry_def)
  have k1: "?k \<in> fst ` set ?s1"
    using key_ensure_entry [of ?k summary] by simp
  have b1: "sum_list (map (\<lambda>e. \<bar>finite_value (total' (snd e))\<bar>) ?s1) +
              \<bar>finite_value (amount t)\<bar> \<le> 2 ^ 53"
    using assms(3) by (simp only: a1)
  note step = update_entry_exact [OF k1 w1 assms(2) b1]
  have same: "map (\<lambda>e. total' (snd e)) (forEach_body summary t) = map (\<lambda>e. total' (snd e)) ?s2"
    unfolding forEach_body_unfold by (rule update_entry_same_totals) simp
  have m1: "list_all (\<lambda>e. is_whole (total' (snd e))) xs =
              list_all is_whole (map (\<lambda>e. total' (snd e)) xs)" for xs :: summary_object
    by (simp add: list_all_iff)
  have m2: "sum_list (map (\<lambda>e. finite_value (total' (snd e))) xs) =
              sum_list (map finite_value (map (\<lambda>e. total' (snd e)) xs))" for xs :: summary_object
    by (simp add: comp_def)
  have m3: "sum_list (map (\<lambda>e. \<bar>finite_value (total' (snd e))\<bar>) xs) =
              sum_list (map (\<lambda>x. \<bar>finite_value x\<bar>) (map (\<lambda>e. total' (snd e)) xs))"
    for xs :: summary_object
    by (simp add: comp_def)
  have "list_all (\<lambda>e. is_whole (total' (snd e))) (forEach_body summary t) =
          list_all (\<lambda>e. is_whole (total' (snd e))) ?s2"
    by (simp only: m1 same)
  moreover have "sum_list (map (\<lambda>e. finite_value (total' (snd e))) (forEach_body summary t)) =
                   sum_list (map (\<lambda>e. finite_value (total' (snd e))) ?s2)"
    by (simp only: m2 same)
  moreover have "sum_list (map (\<lambda>e. \<bar>finite_value (total' (snd e))\<bar>) (forEach_body summary t)) =
                   sum_list (map (\<lambda>e. \<bar>finite_value (total' (snd e))\<bar>) ?s2)"
    by (simp only: m3 same)
  ultimately show ?thesis
    using step by (simp only: v1 a1)
qed

lemma forEach_exact:
  assumes "list_all (\<lambda>e. is_whole (total' (snd e))) summary"
    and "list_all (\<lambda>t. is_whole (amount t)) ts"
    and "sum_list (map (\<lambda>e. \<bar>finite_value (total' (snd e))\<bar>) summary) +
           sum_list (map (\<lambda>t. \<bar>finite_value (amount t)\<bar>) ts) \<le> 2 ^ 53"
  shows "list_all (\<lambda>e. is_whole (total' (snd e))) (foldl forEach_body summary ts) \<and>
         sum_list (map (\<lambda>e. finite_value (total' (snd e))) (foldl forEach_body summary ts)) =
           sum_list (map (\<lambda>e. finite_value (total' (snd e))) summary) +
             sum_list (map (\<lambda>t. finite_value (amount t)) ts)"
  using assms
proof (induction ts arbitrary: summary)
  case Nil
  then show ?case by simp
next
  case (Cons t ts)
  have rest_nonneg: "0 \<le> sum_list (map (\<lambda>t. \<bar>finite_value (amount t)\<bar>) ts)"
    by (induction ts) simp_all
  have b: "sum_list (map (\<lambda>e. \<bar>finite_value (total' (snd e))\<bar>) summary) +
             \<bar>finite_value (amount t)\<bar> \<le> 2 ^ 53"
    using Cons.prems(3) rest_nonneg by simp
  have t: "is_whole (amount t)"
    using Cons.prems(2) by simp
  note step = forEach_body_exact [OF Cons.prems(1) t b]
  have "sum_list (map (\<lambda>e. \<bar>finite_value (total' (snd e))\<bar>) (forEach_body summary t)) +
          sum_list (map (\<lambda>t. \<bar>finite_value (amount t)\<bar>) ts) \<le> 2 ^ 53"
    using step Cons.prems(3) by simp
  moreover have "list_all (\<lambda>t. is_whole (amount t)) ts"
    using Cons.prems(2) by simp
  ultimately have
    "list_all (\<lambda>e. is_whole (total' (snd e))) (foldl forEach_body (forEach_body summary t) ts) \<and>
     sum_list (map (\<lambda>e. finite_value (total' (snd e)))
       (foldl forEach_body (forEach_body summary t) ts)) =
       sum_list (map (\<lambda>e. finite_value (total' (snd e))) (forEach_body summary t)) +
         sum_list (map (\<lambda>t. finite_value (amount t)) ts)"
    using step by (intro Cons.IH) simp_all
  with step show ?case
    by simp
qed

lemma reduce_exact:
  assumes "is_whole s"
    and "list_all (\<lambda>t. is_whole (amount t)) ts"
    and "\<bar>finite_value s\<bar> + sum_list (map (\<lambda>t. \<bar>finite_value (amount t)\<bar>) ts) \<le> 2 ^ 53"
  shows "foldl (\<lambda>sum t. fadd sum (amount t)) s ts =
           Fin (finite_value s + sum_list (map (\<lambda>t. finite_value (amount t)) ts))"
  using assms
proof (induction ts arbitrary: s)
  case Nil
  then show ?case by (cases s) simp_all
next
  case (Cons t ts)
  have rest_nonneg: "0 \<le> sum_list (map (\<lambda>t. \<bar>finite_value (amount t)\<bar>) ts)"
    by (induction ts) simp_all
  have t: "is_whole (amount t)"
    using Cons.prems(2) by simp
  have "\<bar>finite_value s\<bar> + \<bar>finite_value (amount t)\<bar> \<le> 2 ^ 53"
    using Cons.prems(3) rest_nonneg by simp
  with Cons.prems(1) t
  have f: "fadd s (amount t) = Fin (finite_value s + finite_value (amount t))"
    and w: "is_whole (Fin (finite_value s + finite_value (amount t)))"
    using fadd_whole [of s "amount t"] by simp_all
  have "\<bar>finite_value s + finite_value (amount t)\<bar> \<le>
          \<bar>finite_value s\<bar> + \<bar>finite_value (amount t)\<bar>"
    by (rule abs_triangle_ineq)
  then have "\<bar>finite_value (Fin (finite_value s + finite_value (amount t)))\<bar> +
               sum_list (map (\<lambda>t. \<bar>finite_value (amount t)\<bar>) ts) \<le> 2 ^ 53"
    using Cons.prems(3) by simp
  with w Cons.prems(2)
  have "foldl (\<lambda>sum t. fadd sum (amount t)) (Fin (finite_value s + finite_value (amount t))) ts =
          Fin (finite_value (Fin (finite_value s + finite_value (amount t))) +
               sum_list (map (\<lambda>t. finite_value (amount t)) ts))"
    by (intro Cons.IH) simp_all
  then show ?case
    by (simp add: f add.assoc)
qed

lemma exact_categorySummary:
  assumes "list_all (\<lambda>t. is_whole (amount t)) ts"
    and "sum_list (map (\<lambda>t. \<bar>finite_value (amount t)\<bar>) ts) \<le> 2 ^ 53"
  shows "list_all (\<lambda>s. is_whole (total' s)) (categorySummary ts)"
    and "sum_list (map (\<lambda>s. finite_value (total' s)) (categorySummary ts)) =
           sum_list (map (\<lambda>t. finite_value (amount t)) ts)"
proof -
  let ?summary = "foldl forEach_body [] ts"
  have e: "list_all (\<lambda>e. is_whole (total' (snd e))) ?summary \<and>
           sum_list (map (\<lambda>e. finite_value (total' (snd e))) ?summary) =
             sum_list (map (\<lambda>e. finite_value (total' (snd e))) []) +
               sum_list (map (\<lambda>t. finite_value (amount t)) ts)"
    using assms forEach_exact [of "[]" ts] by simp
  have "set (categorySummary ts) = set (Object_values ?summary)"
    by (simp only: categorySummary_def set_Array_sort)
  with e show "list_all (\<lambda>s. is_whole (total' s)) (categorySummary ts)"
    by (auto simp: list_all_iff Object_values_def)
  have "sum_list (map (\<lambda>s. finite_value (total' s)) (categorySummary ts)) =
          sum_list (map (\<lambda>s. finite_value (total' s)) (Object_values ?summary))"
    by (simp only: categorySummary_def sum_list_Array_sort)
  also have "\<dots> = sum_list (map (\<lambda>e. finite_value (total' (snd e))) ?summary)"
    by (simp add: Object_values_def comp_def)
  finally show "sum_list (map (\<lambda>s. finite_value (total' s)) (categorySummary ts)) =
                  sum_list (map (\<lambda>t. finite_value (amount t)) ts)"
    using e by simp
qed

lemma exact_totalSpent:
  assumes "list_all (\<lambda>t. is_whole (amount t)) ts"
    and "sum_list (map (\<lambda>t. \<bar>finite_value (amount t)\<bar>) ts) \<le> 2 ^ 53"
  shows "totalSpent ts = Fin (sum_list (map (\<lambda>t. finite_value (amount t)) ts))"
proof -
  have "foldl (\<lambda>sum t. fadd sum (amount t)) (Fin 0) ts =
          Fin (finite_value (Fin 0) + sum_list (map (\<lambda>t. finite_value (amount t)) ts))"
    using assms by (intro reduce_exact) simp_all
  then show ?thesis
    by (simp add: totalSpent_def)
qed

subsection \<open>The Aggregator's output\<close>

lemma descending_categorySummary:
  assumes "list_all (\<lambda>s. total' s \<noteq> NaN) (categorySummary ts)"
  shows "sorted_wrt (\<lambda>a b. fge (total' a) (total' b)) (categorySummary ts)"
proof -
  let ?xs = "Object_values (foldl forEach_body [] ts)"
  have "set (categorySummary ts) = set ?xs"
    by (simp only: categorySummary_def set_Array_sort)
  with assms have "\<forall>s \<in> set ?xs. total' s \<noteq> NaN"
    by (simp add: list_all_iff)
  moreover have "\<forall>s \<in> set ?xs. representable (total' s)"
    using totals_representable [of ts] by (auto simp: list_all_iff Object_values_def)
  ultimately have "\<forall>s \<in> set ?xs. representable (total' s) \<and> total' s \<noteq> NaN"
    by blast
  then show ?thesis
    unfolding categorySummary_def by (rule descending_Array_sort)
qed

lemma finite_amounts_no_NaN:
  assumes "list_all (\<lambda>t. is_finite (amount t)) ts"
  shows "list_all (\<lambda>s. total' s \<noteq> NaN) (categorySummary ts)"
proof -
  let ?xs = "Object_values (foldl forEach_body [] ts)"
  have "set (categorySummary ts) = set ?xs"
    by (simp only: categorySummary_def set_Array_sort)
  moreover have "\<forall>s \<in> set ?xs. total' s \<noteq> NaN"
    using totals_not_NaN [OF assms] by (auto simp: list_all_iff Object_values_def)
  ultimately show ?thesis
    by (simp add: list_all_iff)
qed

lemma categories_categorySummary:
  "distinct (map ExpenseSummary.category (categorySummary ts)) \<and>
   set (map ExpenseSummary.category (categorySummary ts)) = Transaction.category ` set ts"
proof -
  let ?summary = "foldl forEach_body [] ts"
  have keys: "distinct (map fst ?summary) \<and> set (map fst ?summary) = Transaction.category ` set ts"
    using keys_forEach [of "[]" ts] by simp
  have "distinct (map ExpenseSummary.category (categorySummary ts)) =
          distinct (map ExpenseSummary.category (Object_values ?summary))"
    by (simp only: categorySummary_def distinct_map_Array_sort)
  moreover have "set (map ExpenseSummary.category (categorySummary ts)) =
                   set (map ExpenseSummary.category (Object_values ?summary))"
    by (simp only: categorySummary_def set_map set_Array_sort)
  ultimately show ?thesis
    using keys by (simp only: categories_summary)
qed

lemma sample_summary:
  "categorySummary sample_transactions =
     [\<lparr>category = SHOPPING, total' = Fin 1200, count = 1, color = ''#60A5FA''\<rparr>,
      \<lparr>category = FOOD, total' = Fin 800, count = 2, color = ''#F87171''\<rparr>]"
  by (simp add: categorySummary_def Array_sort_def Object_values_def forEach_body_def
        ensure_entry_def or_else_def fsub_def sample_transactions_def
        round_double_0 round_double_numeral round_double_neg_numeral)

lemma large_totals:
  "map total' (categorySummary large_transactions) = [Fin 2, Fin 0]"
  by (simp add: categorySummary_def Array_sort_def Object_values_def forEach_body_def
        ensure_entry_def or_else_def fsub_def large_transactions_def
        round_double_0 round_double_1 round_double_numeral round_double_neg_numeral)

lemma large_totalSpent: "totalSpent large_transactions = Fin 1"
  by (simp add: totalSpent_def large_transactions_def
        round_double_0 round_double_1 round_double_numeral round_tie)

lemma decimal_totals:
  "map total' (categorySummary decimal_transactions) =
     [Fin (1351079888211149 / 1125899906842624), Fin (3602879701896397 / 36028797018963968)]"
proof -
  have "3602879701896397 / 36028797018963968 + - (1351079888211149 / 1125899906842624)
          \<le> (0::rat)"
    by simp
  then have "\<not> positive (fadd (Fin (3602879701896397 / 36028797018963968))
                            (Fin (- (1351079888211149 / 1125899906842624))))"
    by (rule not_positive_fadd)
  then show ?thesis
    by (simp add: categorySummary_def Array_sort_def Object_values_def forEach_body_def
          ensure_entry_def or_else_def fsub_def decimal_transactions_def
          JSON_number_tenth JSON_number_eleven_tenths sum_zero_tenth sum_tenth_eleven_tenths
          del: fadd.simps)
qed

lemma decimal_totalSpent:
  "totalSpent decimal_transactions = Fin (5854679515581645 / 4503599627370496)"
  by (simp add: totalSpent_def decimal_transactions_def
        JSON_number_tenth JSON_number_eleven_tenths sum_zero_tenth sum_tenth_tenth
        sum_fifth_eleven_tenths
        del: fadd.simps)

lemma infinite_totals:
  "map total' (categorySummary infinite_transactions) = [Fin 5, NaN, Fin 10]"
  by (simp add: categorySummary_def Array_sort_def Object_values_def forEach_body_def
        ensure_entry_def or_else_def fsub_def infinite_transactions_def
        JSON_number_1e999 JSON_number_minus_1e999
        round_double_0 round_double_numeral round_double_neg_numeral)

text \<open>
  C1, as stated, fails: the additions are rounded, and \<open>totalSpent\<close> adds the amounts
  in another order than the categories do. With the amounts \<open>2 ^ 53\<close>, 1,
  \<open>-(2 ^ 53)\<close>, 1 the totals are 2 and 0 while \<open>totalSpent\<close> is 1; with 0.1, 0.1,
  1.1 the totals are 1.2000000000000002 and 0.1 while \<open>totalSpent\<close> is 1.3.
\<close>

theorem categorySummary_total_not_conserved:
  "large_transactions \<noteq> [] \<and>
   map total' (categorySummary large_transactions) = [Fin 2, Fin 0] \<and>
   sum_list (map (\<lambda>t. finite_value (amount t)) large_transactions) = 2 \<and>
   totalSpent large_transactions = Fin 1 \<and>
   Fin (sum_list (map (\<lambda>s. finite_value (total' s)) (categorySummary large_transactions))) \<noteq>
     totalSpent large_transactions \<and>
   decimal_transactions \<noteq> [] \<and>
   map total' (categorySummary decimal_transactions) =
     [Fin (1351079888211149 / 1125899906842624), Fin (3602879701896397 / 36028797018963968)] \<and>
   totalSpent decimal_transactions = Fin (5854679515581645 / 4503599627370496) \<and>
   Fin (sum_list (map (\<lambda>s. finite_value (total' s)) (categorySummary decimal_transactions))) \<noteq>
     totalSpent decimal_transactions"
proof -
  have m: "map (\<lambda>s. finite_value (total' s)) xs = map finite_value (map total' xs)"
    for xs :: "ExpenseSummary list"
    by simp
  have "large_transactions \<noteq> []"
    by (simp add: large_transactions_def)
  moreover have "sum_list (map (\<lambda>t. finite_value (amount t)) large_transactions) = 2"
    by (simp add: large_transactions_def)
  moreover have
    "Fin (sum_list (map (\<lambda>s. finite_value (total' s)) (categorySummary large_transactions))) \<noteq>
       totalSpent large_transactions"
    by (simp only: m large_totals large_totalSpent) simp
  moreover have "decimal_transactions \<noteq> []"
    by (simp add: decimal_transactions_def)
  moreover have
    "Fin (sum_list (map (\<lambda>s. finite_value (total' s)) (categorySummary decimal_transactions))) \<noteq>
       totalSpent decimal_transactions"
    by (simp only: m decimal_totals decimal_totalSpent) simp
  ultimately show ?thesis
    using large_totals large_totalSpent decimal_totals decimal_totalSpent
    by (simp only: simp_thms)
qed

text \<open>
  C1, amended. For every non-empty transaction list whose amounts are whole numbers
  with absolute values that add up to at most \<open>2 ^ 53\<close>, no addition rounds: every
  total of \<open>categorySummary\<close> is a whole number, the totals add up to the sum of the
  amounts, and \<open>totalSpent\<close> returns that sum.
\<close>

theorem categorySummary_conserves_whole_total:
  "ts \<noteq> [] \<Longrightarrow> list_all (\<lambda>t. is_whole (amount t)) ts \<Longrightarrow>
   sum_list (map (\<lambda>t. \<bar>finite_value (amount t)\<bar>) ts) \<le> 2 ^ 53 \<Longrightarrow>
     list_all (\<lambda>s. is_whole (total' s)) (categorySummary ts) \<and>
     sum_list (map (\<lambda>s. finite_value (total' s)) (categorySummary ts)) =
       sum_list (map (\<lambda>t. finite_value (amount t)) ts) \<and>
     totalSpent ts = Fin (sum_list (map (\<lambda>t. finite_value (amount t)) ts))"
  by (simp only: exact_categorySummary exact_totalSpent simp_thms)

theorem categorySummary_conserves_whole_total_witness:
  "sample_transactions \<noteq> [] \<and>
   list_all (\<lambda>t. is_whole (amount t)) sample_transactions \<and>
   sum_list (map (\<lambda>t. \<bar>finite_value (amount t)\<bar>) sample_transactions) \<le> 2 ^ 53 \<and>
   list_all (\<lambda>s. is_whole (total' s)) (categorySummary sample_transactions) \<and>
   sum_list (map (\<lambda>s. finite_value (total' s)) (categorySummary sample_transactions)) = 2000 \<and>
   totalSpent sample_transactions = Fin 2000"
proof -
  have h1: "sample_transactions \<noteq> []"
    by (simp add: sample_transactions_def)
  have h2: "list_all (\<lambda>t. is_whole (amount t)) sample_transactions"
    by (simp add: sample_transactions_def)
  have h3: "sum_list (map (\<lambda>t. \<bar>finite_value (amount t)\<bar>) sample_transactions) \<le> 2 ^ 53"
    by (simp add: sample_transactions_def)
  have v: "sum_list (map (\<lambda>t. finite_value (amount t)) sample_transactions) = 2000"
    by (simp add: sample_transactions_def)
  from categorySummary_conserves_whole_total [OF h1 h2 h3] h1 h2 h3 show ?thesis
    by (simp only: v simp_thms)
qed

text \<open>
  C5, as stated, fails: a category that holds the amounts \<open>1e999\<close> and \<open>-1e999\<close> has
  the total \<open>NaN\<close>, on which the comparator returns \<open>NaN\<close>; the output has the
  totals 5, \<open>NaN\<close>, 10, and no adjacent pair satisfies \<open>a.total >= b.total\<close>.
\<close>

theorem categorySummary_NaN_not_descending:
  "map total' (categorySummary infinite_transactions) = [Fin 5, NaN, Fin 10] \<and>
   Suc 0 < length (categorySummary infinite_transactions) \<and>
   \<not> fge (total' (categorySummary infinite_transactions ! 0))
          (total' (categorySummary infinite_transactions ! Suc 0)) \<and>
   \<not> fge (total' (categorySummary infinite_transactions ! Suc 0))
          (total' (categorySummary infinite_transactions ! Suc (Suc 0)))"
proof -
  have n: "total' (xs ! i) = map total' xs ! i" if "i < length (map total' xs)"
    for xs :: "ExpenseSummary list" and i
    using that by simp
  have l: "length (categorySummary infinite_transactions) =
             length (map total' (categorySummary infinite_transactions))"
    by simp
  have len: "length (map total' (categorySummary infinite_transactions)) = 3"
    by (simp only: infinite_totals) simp
  have t0: "total' (categorySummary infinite_transactions ! 0) = Fin 5"
    by (subst n) (simp_all only: len infinite_totals, simp_all)
  have t1: "total' (categorySummary infinite_transactions ! Suc 0) = NaN"
    by (subst n) (simp_all only: len infinite_totals, simp_all)
  have t2: "total' (categorySummary infinite_transactions ! Suc (Suc 0)) = Fin 10"
    by (subst n) (simp_all only: len infinite_totals, simp_all)
  have "Suc 0 < length (categorySummary infinite_transactions)"
    by (simp only: l len)
  then show ?thesis
    using infinite_totals by (simp only: t0 t1 t2) simp
qed

text \<open>
  C5, amended. When no total of the output is \<open>NaN\<close>, which is so whenever every
  amount is finite, the output of \<open>categorySummary\<close> is sorted by total, descending:
  each summary's total is \<open>>=\<close> the total of the summary that follows it.
\<close>

theorem categorySummary_sorted_without_NaN:
  "(list_all (\<lambda>t. is_finite (amount t)) ts \<longrightarrow>
      list_all (\<lambda>s. total' s \<noteq> NaN) (categorySummary ts)) \<and>
   (list_all (\<lambda>s. total' s \<noteq> NaN) (categorySummary ts) \<and>
    Suc i < length (categorySummary ts) \<longrightarrow>
      fge (total' (categorySummary ts ! i)) (total' (categorySummary ts ! Suc i)))"
proof (intro conjI impI)
  assume "list_all (\<lambda>t. is_finite (amount t)) ts"
  then show "list_all (\<lambda>s. total' s \<noteq> NaN) (categorySummary ts)"
    by (rule finite_amounts_no_NaN)
next
  assume a: "list_all (\<lambda>s. total' s \<noteq> NaN) (categorySummary ts) \<and>
             Suc i < length (categorySummary ts)"
  then have s: "sorted_wrt (\<lambda>a b. fge (total' a) (total' b)) (categorySummary ts)"
    by (intro descending_categorySummary) simp
  have "i < Suc i"
    by simp
  from sorted_wrt_nth_less [OF s this] a
  show "fge (total' (categorySummary ts ! i)) (total' (categorySummary ts ! Suc i))"
    by simp
qed

theorem categorySummary_sorted_without_NaN_witness:
  "list_all (\<lambda>t. is_finite (amount t)) sample_transactions \<and>
   list_all (\<lambda>s. total' s \<noteq> NaN) (categorySummary sample_transactions) \<and>
   Suc 0 < length (categorySummary sample_transactions) \<and>
   fge (total' (categorySummary sample_transactions ! 0))
       (total' (categorySummary sample_transactions ! Suc 0))"
proof -
  have h1: "list_all (\<lambda>t. is_finite (amount t)) sample_transactions"
    by (simp add: sample_transactions_def)
  have h2: "Suc 0 < length (categorySummary sample_transactions)"
    by (simp add: sample_summary)
  from categorySummary_sorted_without_NaN [of sample_transactions 0] h1 h2 show ?thesis
    by blast
qed

text \<open>
  C6. The counts of the summaries that \<open>categorySummary\<close> produces add up to the
  number of transactions.
\<close>

theorem categorySummary_counts:
  "sum_list (map count (categorySummary ts)) = length ts"
proof -
  have "sum_list (map count (categorySummary ts)) =
          sum_list (map (count \<circ> snd) (foldl forEach_body [] ts))"
    by (simp add: categorySummary_def sum_list_Array_sort Object_values_def)
  also have "\<dots> = length ts"
    by (simp add: counts_forEach)
  finally show ?thesis .
qed

text \<open>
  C7. The categories of the summaries are pairwise distinct and are exactly the
  categories of the transactions; the empty list gives no summary and grand total 0.
\<close>

theorem categorySummary_categories:
  "distinct (map ExpenseSummary.category (categorySummary ts)) \<and>
   set (map ExpenseSummary.category (categorySummary ts)) = Transaction.category ` set ts \<and>
   categorySummary [] = [] \<and> totalSpent [] = Fin 0"
proof -
  have "categorySummary [] = []"
    by (simp add: categorySummary_def Array_sort_def Object_values_def)
  moreover have "totalSpent [] = Fin 0"
    by (simp add: totalSpent_def)
  ultimately show ?thesis
    using categories_categorySummary [of ts] by simp
qed

subsection \<open>The Statement Analyzer\<close>

lemma gambling_not_conforming: "\<not> conforms_responseSchema gambling_payload"
  by (simp add: conforms_responseSchema_def gambling_payload_def conforms_transaction_def
        required_category_def Category_values_def)

lemma empty_object_not_conforming: "\<not> conforms_responseSchema (JObject [])"
  by (simp add: conforms_responseSchema_def)

lemma analyzeStatement_parsed:
  "generateContent (prompt input) = Response t \<Longrightarrow> JSON_parse (ToString t) = Some v \<Longrightarrow>
     analyzeStatement generateContent JSON_parse input = Inr v"
  by (simp add: analyzeStatement_def)

lemma analyzeStatement_failure:
  "analyzeStatement generateContent JSON_parse input = Inl e \<Longrightarrow>
     e = Error (Some ''Failed to analyze statement. Please ensure the input is clear.'')"
  by (auto simp: analyzeStatement_def split: api_response.splits option.splits)

text \<open>
  C2, as stated, fails: a payload that \<open>JSON.parse\<close> accepts is returned as the
  successful result although its category is outside the enumeration, and so is an
  empty object, which has none of the required fields.
\<close>

theorem analyzeStatement_returns_nonconforming:
  "\<not> conforms_responseSchema gambling_payload \<and>
   analyzeStatement service_gambling JSON_parse_examples (Text ''statement'') =
     Inr gambling_payload \<and>
   \<not> conforms_responseSchema (JObject []) \<and>
   analyzeStatement service_empty_object JSON_parse_examples (Text ''statement'') =
     Inr (JObject [])"
proof -
  have "JSON_parse_examples gambling_text = Some gambling_payload"
    by (simp add: JSON_parse_examples_def)
  then have 1: "analyzeStatement service_gambling JSON_parse_examples (Text ''statement'') =
                  Inr gambling_payload"
    by (simp add: analyzeStatement_def service_gambling_def ToString_def)
  have "gambling_text \<noteq> ''{}''"
    by (simp add: gambling_text_def)
  then have "JSON_parse_examples ''{}'' = Some (JObject [])"
    by (simp add: JSON_parse_examples_def)
  then have 2: "analyzeStatement service_empty_object JSON_parse_examples (Text ''statement'') =
                  Inr (JObject [])"
    by (simp add: analyzeStatement_def service_empty_object_def ToString_def)
  from 1 2 gambling_not_conforming empty_object_not_conforming show ?thesis
    by simp
qed

text \<open>
  C2, amended. \<open>analyzeStatement\<close> fails exactly when the external call rejects or the
  response text is not JSON. Every value that \<open>JSON.parse\<close> builds is returned as
  the successful result, whether it conforms to the schema or not.
\<close>

theorem analyzeStatement_fails_iff:
  "(generateContent (prompt input) = Response t \<and> JSON_parse (ToString t) = Some v \<longrightarrow>
      analyzeStatement generateContent JSON_parse input = Inr v) \<and>
   (isl (analyzeStatement generateContent JSON_parse input) =
      ((\<exists>cause. generateContent (prompt input) = Rejected cause) \<or>
       (\<exists>t'. generateContent (prompt input) = Response t' \<and> JSON_parse (ToString t') = None)))"
  by (auto simp: analyzeStatement_def split: api_response.splits option.splits)

theorem analyzeStatement_fails_iff_witness:
  "service_gambling (prompt (Text ''statement'')) = Response (Some gambling_text) \<and>
   JSON_parse_examples (ToString (Some gambling_text)) = Some gambling_payload \<and>
   \<not> conforms_responseSchema gambling_payload \<and>
   analyzeStatement service_gambling JSON_parse_examples (Text ''statement'') =
     Inr gambling_payload"
proof -
  have h1: "service_gambling (prompt (Text ''statement'')) = Response (Some gambling_text)"
    by (simp add: service_gambling_def)
  have h2: "JSON_parse_examples (ToString (Some gambling_text)) = Some gambling_payload"
    by (simp add: JSON_parse_examples_def ToString_def)
  from analyzeStatement_fails_iff
         [of service_gambling "Text ''statement''" "Some gambling_text" JSON_parse_examples
            gambling_payload]
       h1 h2
  have "analyzeStatement service_gambling JSON_parse_examples (Text ''statement'') =
          Inr gambling_payload"
    by blast
  with h1 h2 gambling_not_conforming show ?thesis
    by blast
qed

text \<open>
  C10. Every failure of \<open>analyzeStatement\<close> carries the same message, whether the
  external call rejected (for whatever cause) or the response text was not JSON; two
  failures are equal values.
\<close>

theorem analyzeStatement_failure_message:
  "(generateContent (prompt input) = Rejected cause \<and>
    generateContent' (prompt input') = Response t \<and> JSON_parse' (ToString t) = None \<longrightarrow>
      analyzeStatement generateContent JSON_parse input =
        Inl (Error (Some ''Failed to analyze statement. Please ensure the input is clear.'')) \<and>
      analyzeStatement generateContent' JSON_parse' input' =
        analyzeStatement generateContent JSON_parse input) \<and>
   (analyzeStatement generateContent JSON_parse input = Inl e \<longrightarrow>
      e = Error (Some ''Failed to analyze statement. Please ensure the input is clear.''))"
proof -
  have "analyzeStatement generateContent JSON_parse input = Inl e \<longrightarrow>
      e = Error (Some ''Failed to analyze statement. Please ensure the input is clear.'')"
    using analyzeStatement_failure [of generateContent JSON_parse input e] by blast
  moreover have "generateContent (prompt input) = Rejected cause \<longrightarrow>
      analyzeStatement generateContent JSON_parse input =
        Inl (Error (Some ''Failed to analyze statement. Please ensure the input is clear.''))"
    by (simp add: analyzeStatement_def)
  moreover have
    "generateContent' (prompt input') = Response t \<and> JSON_parse' (ToString t) = None \<longrightarrow>
      analyzeStatement generateContent' JSON_parse' input' =
        Inl (Error (Some ''Failed to analyze statement. Please ensure the input is clear.''))"
    by (simp add: analyzeStatement_def)
  ultimately show ?thesis
    by simp
qed

theorem analyzeStatement_failure_message_witness:
  "service_down (prompt (Text ''statement'')) = Rejected (Error (Some ''fetch failed'')) \<and>
   service_not_json (prompt (InlineData (Some ''AAAA'') ''image/png'')) =
     Response (Some ''Sorry, I cannot read this statement.'') \<and>
   JSON_parse_examples (ToString (Some ''Sorry, I cannot read this statement.'')) = None \<and>
   analyzeStatement service_down JSON_parse_examples (Text ''statement'') =
     Inl (Error (Some ''Failed to analyze statement. Please ensure the input is clear.'')) \<and>
   analyzeStatement service_not_json JSON_parse_examples (InlineData (Some ''AAAA'') ''image/png'') =
     analyzeStatement service_down JSON_parse_examples (Text ''statement'')"
proof -
  have h1: "service_down (prompt (Text ''statement'')) = Rejected (Error (Some ''fetch failed''))"
    by (simp add: service_down_def)
  have h2: "service_not_json (prompt (InlineData (Some ''AAAA'') ''image/png'')) =
              Response (Some ''Sorry, I cannot read this statement.'')"
    by (simp add: service_not_json_def)
  have h3: "JSON_parse_examples (ToString (Some ''Sorry, I cannot read this statement.'')) = None"
    by (simp add: JSON_parse_examples_def ToString_def gambling_text_def)
  from analyzeStatement_failure_message
         [of service_down "Text ''statement''" "Error (Some ''fetch failed'')"
            service_not_json "InlineData (Some ''AAAA'') ''image/png''"
            "Some ''Sorry, I cannot read this statement.''" JSON_parse_examples
            JSON_parse_examples]
       h1 h2 h3
  show ?thesis
    by blast
qed

subsection \<open>The session state\<close>

text \<open>
  C3. When the analysis fails, \<open>processAnalysis\<close> leaves the transaction list as it
  was, records a non-empty error message and ends the loading state.
\<close>

theorem processAnalysis_failure:
  "analyze input = Inl err \<Longrightarrow>
     App_state.transactions (fst (processAnalysis analyze input s)) = App_state.transactions s \<and>
     error (fst (processAnalysis analyze input s)) =
       Some (message_or (message err) ''An error occurred during analysis.'') \<and>
     message_or (message err) ''An error occurred during analysis.'' \<noteq> [] \<and>
     \<not> loading (fst (processAnalysis analyze input s))"
  by (cases err)
     (simp add: processAnalysis_def Let_def message_or_def or_else_def split: option.splits)

theorem processAnalysis_failure_witness:
  "analyze_failing (Text ''statement'') =
     Inl (Error (Some ''Failed to analyze statement. Please ensure the input is clear.'')) \<and>
   App_state.transactions (fst (processAnalysis analyze_failing (Text ''statement'') sample_state)) =
     App_state.transactions sample_state \<and>
   error (fst (processAnalysis analyze_failing (Text ''statement'') sample_state)) =
     Some ''Failed to analyze statement. Please ensure the input is clear.'' \<and>
   \<not> loading (fst (processAnalysis analyze_failing (Text ''statement'') sample_state))"
proof -
  have h: "analyze_failing (Text ''statement'') =
             Inl (Error (Some ''Failed to analyze statement. Please ensure the input is clear.''))"
    by (simp add: analyze_failing_def)
  from h
    processAnalysis_failure
      [of analyze_failing "Text ''statement''"
         "Error (Some ''Failed to analyze statement. Please ensure the input is clear.'')"
         sample_state]
  show ?thesis
    by (simp add: message_or_def or_else_def)
qed

text \<open>
  C4. When the analysis succeeds with result \<open>R\<close>, the new transaction list is the old
  one followed by the transactions of \<open>R\<close>, in their order. Two successful analyses
  in a row, starting from the empty list, leave the transactions of the first
  result followed by those of the second.
\<close>

theorem processAnalysis_success_appends:
  "(analyze input = Inr R \<longrightarrow>
      App_state.transactions (fst (processAnalysis analyze input s)) =
        App_state.transactions s @ AnalysisResult.transactions R) \<and>
   (App_state.transactions s0 = [] \<and> analyze1 input1 = Inr R1 \<and> analyze2 input2 = Inr R2 \<longrightarrow>
      App_state.transactions
        (fst (processAnalysis analyze2 input2 (fst (processAnalysis analyze1 input1 s0)))) =
        AnalysisResult.transactions R1 @ AnalysisResult.transactions R2)"
  by (simp add: processAnalysis_def Let_def)

theorem processAnalysis_success_appends_witness:
  "analyze_sample (Text ''statement'') = Inr sample_result \<and>
   App_state.transactions initial_state = [] \<and>
   App_state.transactions (fst (processAnalysis analyze_sample (Text ''statement'') sample_state)) =
     App_state.transactions sample_state @ sample_transactions \<and>
   App_state.transactions
     (fst (processAnalysis analyze_sample (Text ''statement'')
        (fst (processAnalysis analyze_sample (Text ''statement'') initial_state)))) =
     sample_transactions @ sample_transactions"
proof -
  have h1: "analyze_sample (Text ''statement'') = Inr sample_result"
    by (simp add: analyze_sample_def)
  have h2: "App_state.transactions initial_state = []"
    by (simp add: initial_state_def)
  have r: "AnalysisResult.transactions sample_result = sample_transactions"
    by (simp add: sample_result_def)
  from processAnalysis_success_appends
         [of analyze_sample "Text ''statement''" sample_result sample_state initial_state
            analyze_sample "Text ''statement''" sample_result analyze_sample "Text ''statement''"
            sample_result]
       h1 h2 r
  show ?thesis
    by simp
qed

text \<open>
  C8. After a confirmed \<open>clearData\<close> the transaction list is empty, whatever it held.
\<close>

theorem clearData_confirmed_empties:
  "App_state.transactions (clearData True s) = []"
  by (simp add: clearData_def)

lemma trim_blank: "\<forall>c \<in> set s. is_WhiteSpace c \<Longrightarrow> trim s = []"
proof -
  assume "\<forall>c \<in> set s. is_WhiteSpace c"
  then have "dropWhile is_WhiteSpace s = []"
    by (simp add: dropWhile_eq_Nil_conv)
  then show ?thesis
    by (simp add: trim_def del: dropWhile_eq_Nil_conv)
qed

text \<open>
  C9. With pasted text that is empty or consists of white space only, and with no
  file selected, the handlers issue no request and return the state unchanged.
\<close>

theorem missing_input_ignored:
  "(list_all is_WhiteSpace (pastedText s) \<longrightarrow> handlePasteSubmit analyze s = (s, [])) \<and>
   (files = None \<or> files = Some [] \<longrightarrow> handleFileUpload analyze files s = (s, []))"
  by (auto simp: handlePasteSubmit_def trim_blank list_all_iff handleFileUpload_def
        first_file_def index_def)

theorem missing_input_ignored_witness:
  "list_all is_WhiteSpace (pastedText sample_state) \<and>
   handlePasteSubmit analyze_sample sample_state = (sample_state, []) \<and>
   handleFileUpload analyze_sample (Some []) sample_state = (sample_state, [])"
proof -
  have h: "list_all is_WhiteSpace (pastedText sample_state)"
    by (simp add: sample_state_def is_WhiteSpace_def)
  from h missing_input_ignored [of sample_state analyze_sample "Some []"] show ?thesis
    by simp
qed

end
